theory Spec2Isabelle
  imports Complex_Main "HOL-Library.Word"
begin

section \<open>Perceptual image comparison (package imgdiff)\<close>

text \<open>
  A shallow embedding of \<^verbatim>\<open>perceptual.go\<close> and \<^verbatim>\<open>diff.go\<close>.

  Numbers. Go's \<^verbatim>\<open>float64\<close> is idealised as \<^typ>\<open>real\<close>: rounding, overflow,
  infinities and NaN are not modelled, except in the second embedding of the
  elevation factor, which has the special values. \<^verbatim>\<open>math.Max\<close>, \<^verbatim>\<open>math.Abs\<close>, \<^verbatim>\<open>math.Exp\<close>,
  \<^verbatim>\<open>math.Sqrt\<close>, \<^verbatim>\<open>math.Log10\<close>, \<^verbatim>\<open>math.Tan\<close> and \<^verbatim>\<open>math.Pi\<close> are the functions of
  the same name on the reals. Image coordinates and sizes are Go's \<^verbatim>\<open>int\<close>, modelled
  as \<^typ>\<open>int\<close>; the adaptation index, the one integer that a loop increments without
  an upper bound in its condition, is a 64-bit word.

  Failures. A run-time panic (an index out of range, a negative length given to
  \<^verbatim>\<open>make\<close>) is the left summand of the result; the Go return values, the error among
  them, are the right summand.
\<close>

subsection \<open>Errors and panics\<close>

datatype panic = IndexOutOfRange | MakeSliceLen

datatype error = ErrSize

definition bind :: "panic + 'a \<Rightarrow> ('a \<Rightarrow> panic + 'b) \<Rightarrow> panic + 'b" where
  "bind m f = (case m of Inl p \<Rightarrow> Inl p | Inr v \<Rightarrow> f v)"

fun sequence :: "(panic + 'a) list \<Rightarrow> panic + 'a list" where
  "sequence [] = Inr []"
| "sequence (m # ms) = bind m (\<lambda>v. bind (sequence ms) (\<lambda>vs. Inr (v # vs)))"

subsection \<open>Images\<close>

record point =
  X :: int
  Y :: int

record rectangle =
  Min_pt :: point
  Max_pt :: point

definition Dx :: "rectangle \<Rightarrow> int" where
  "Dx r = X (Max_pt r) - X (Min_pt r)"

definition Dy :: "rectangle \<Rightarrow> int" where
  "Dy r = Y (Max_pt r) - Y (Min_pt r)"

text \<open>A \<^verbatim>\<open>color.Color\<close> is what its method \<^verbatim>\<open>RGBA()\<close> returns: four \<^verbatim>\<open>uint32\<close>.\<close>

datatype color = RGBA (red: "32 word") (green: "32 word") (blue: "32 word") (alpha: "32 word")

datatype nrgba = NRGBA "8 word" "8 word" "8 word" "8 word"

record image =
  Bounds :: rectangle
  At :: "int \<Rightarrow> int \<Rightarrow> color"

subsection \<open>Colorspace conversion\<close>

text \<open>
  \<^verbatim>\<open>math.Pow\<close>: \<open>Pow x 0 = 1\<close> for every \<open>x\<close>, and \<open>Pow 0 y = 0\<close> for \<open>y > 0\<close>.
  (For a negative base and a fractional exponent Go returns NaN, and for a zero base and a
  negative exponent infinity; the model has no such values.)
\<close>

definition Pow :: "real \<Rightarrow> real \<Rightarrow> real" where
  "Pow x y = (if y = 0 then 1 else x powr y)"

definition epsilon :: real where
  "epsilon = 216 / 24389"

definition kappa :: real where
  "kappa = 24389 / 27"

definition xyz :: "color \<Rightarrow> real \<Rightarrow> real \<times> real \<times> real" where
  "xyz c g =
     (let rg = Pow (real (unat (red c)) / 65535) g;
          gg = Pow (real (unat (green c)) / 65535) g;
          bg = Pow (real (unat (blue c)) / 65535) g;
          x = rg * 0.576700 + gg * 0.185556 + bg * 0.188212;
          y = rg * 0.297361 + gg * 0.627355 + bg * 0.0752847;
          z = rg * 0.0270328 + gg * 0.0706879 + bg * 0.991248
      in (x, y, z))"

text \<open>\<^verbatim>\<open>color.RGBA{0xff, 0xff, 0xff, 0xff}.RGBA()\<close> is \<open>0xffff\<close> in each channel.\<close>

definition white :: "real \<times> real \<times> real" where
  "white = xyz (RGBA 0xffff 0xffff 0xffff 0xffff) 1"

definition whiteX :: real where "whiteX = fst white"
definition whiteY :: real where "whiteY = fst (snd white)"
definition whiteZ :: real where "whiteZ = snd (snd white)"

datatype labColor = LabColor (lab_l: real) (lab_a: real) (lab_b: real)

definition lab_f :: "real \<Rightarrow> real" where
  "lab_f r = (if r > epsilon then Pow r (1 / 3) else (kappa * r + 16) / 116)"

definition lab :: "real \<Rightarrow> real \<Rightarrow> real \<Rightarrow> labColor" where
  "lab x y z =
     (let f0 = lab_f (x / whiteX); f1 = lab_f (y / whiteY); f2 = lab_f (z / whiteZ)
      in LabColor (116 * f1 - 16) (500 * (f0 - f1)) (200 * (f1 - f2)))"

subsection \<open>The luminance pyramid\<close>

definition lapLevels :: nat where
  "lapLevels = 8"

definition lapKernel :: "real list" where
  "lapKernel = [0.05, 0.25, 0.4, 0.25, 0.05]"

text \<open>
  The index adjustment of the convolution, for one dimension of size \<open>n\<close>: two
  \<^verbatim>\<open>if\<close> statements, one after the other.
\<close>

definition reflect :: "int \<Rightarrow> int \<Rightarrow> int" where
  "reflect n i =
     (let i1 = (if i < 0 then - i else i)
      in if i1 \<ge> n then 2 * n - i1 - 1 else i1)"

text \<open>A checked read \<^verbatim>\<open>p[y][x]\<close>.\<close>

definition at2 :: "'a list list \<Rightarrow> int \<Rightarrow> int \<Rightarrow> panic + 'a" where
  "at2 p y x =
     (if 0 \<le> y \<and> y < int (length p)
      then (if 0 \<le> x \<and> x < int (length (p ! nat y))
            then Inr (p ! nat y ! nat x) else Inl IndexOutOfRange)
      else Inl IndexOutOfRange)"

text \<open>The offsets \<open>(i, j)\<close> in the order of the two inner loops.\<close>

definition offsets :: "(int \<times> int) list" where
  "offsets = concat (map (\<lambda>i. map (\<lambda>j. (i, j)) [-2, -1, 0, 1, 2]) [-2, -1, 0, 1, 2])"

fun conv_acc :: "real list list \<Rightarrow> int \<Rightarrow> int \<Rightarrow> int \<Rightarrow> int \<Rightarrow> (int \<times> int) list \<Rightarrow> real
    \<Rightarrow> panic + real" where
  "conv_acc prev h w y x [] acc = Inr acc"
| "conv_acc prev h w y x ((i, j) # ijs) acc =
     bind (at2 prev (reflect h (y + j)) (reflect w (x + i)))
       (\<lambda>v. conv_acc prev h w y x ijs
               (acc + lapKernel ! nat (i + 2) * lapKernel ! nat (j + 2) * v))"

definition conv_level :: "real list list \<Rightarrow> nat \<Rightarrow> nat \<Rightarrow> panic + real list list" where
  "conv_level prev h w =
     sequence (map (\<lambda>y. sequence (map (\<lambda>x. conv_acc prev (int h) (int w) (int y) (int x) offsets 0)
                                    [0..<w]))
                   [0..<h])"

fun build_levels :: "nat \<Rightarrow> nat \<Rightarrow> nat \<Rightarrow> real list list \<Rightarrow> panic + real list list list" where
  "build_levels 0 h w prev = Inr []"
| "build_levels (Suc k) h w prev =
     bind (conv_level prev h w)
       (\<lambda>cur. bind (build_levels k h w cur) (\<lambda>rest. Inr (cur # rest)))"

text \<open>\<^verbatim>\<open>copy(dst, src)\<close> into a fresh \<^verbatim>\<open>make([]float64, w)\<close>.\<close>

definition copy_row :: "nat \<Rightarrow> real list \<Rightarrow> real list" where
  "copy_row w src = take w src @ replicate (w - length src) 0"

definition pyramid :: "real list list \<Rightarrow> panic + real list list list" where
  "pyramid m =
     (case m of
        [] \<Rightarrow> Inl IndexOutOfRange
      | r0 # _ \<Rightarrow>
          (let h = length m; w = length r0; l0 = map (copy_row w) m
           in bind (build_levels (lapLevels - 1) h w l0) (\<lambda>rest. Inr (l0 # rest))))"

subsection \<open>Contrast sensitivity, visual masking, threshold versus intensity\<close>

definition csf :: "real \<Rightarrow> real \<Rightarrow> real" where
  "csf cpd lm =
     (let a = 440 * Pow (1 + 0.7 / lm) (- 0.2);
          b = 0.3 * Pow (1 + 100 / lm) 0.15
      in a * cpd * exp (- b * cpd) * sqrt (1 + 0.06 * exp (b * cpd)))"

definition vmask :: "real \<Rightarrow> real" where
  "vmask c =
     (let a = Pow (392.498 * c) 0.7;
          b = Pow (0.0153 * a) 4
      in Pow (1 + b) 0.25)"

definition tvi :: "real \<Rightarrow> real" where
  "tvi al0 =
     (let al = log 10 al0;
          r = (if al < - 3.94 then - 2.86
               else if al < - 1.44 then Pow (0.405 * al + 1.6) 2.18 - 2.86
               else if al < - 0.0184 then al - 0.395
               else if al < 1.9 then Pow (0.249 * al + 0.65) 2.7 - 0.72
               else al - 1.255)
      in Pow 10 r)"

subsection \<open>The engine and its constructor\<close>

text \<open>The field \<open>ai\<close> is a Go \<^verbatim>\<open>int\<close>; its increment wraps around.\<close>

record perceptual =
  gamma :: real
  lum :: real
  nocolor :: bool
  fov :: real
  cf :: real
  odp :: real
  ai :: "64 word"

text \<open>
  The loop \<^verbatim>\<open>for n := 1.0; !(n > d.odp); n *= 2 { d.ai++; if d.ai == lapLevels-1 { break } }\<close>
  from the state \<open>(n, ai)\<close>.
\<close>

function ai_loop :: "real \<Rightarrow> real \<Rightarrow> 64 word \<Rightarrow> 64 word" where
  "ai_loop o_d_p n k =
     (if \<not> (n > o_d_p)
      then (if k + 1 = of_nat (lapLevels - 1) then k + 1 else ai_loop o_d_p (n * 2) (k + 1))
      else k)"
  by pat_completeness auto
termination
proof (relation "measure (\<lambda>(o_d_p, n, k). unat (6 - k))")
  show "wf (measure (\<lambda>(o_d_p, n, k). unat (6 - k)))"
    by simp
next
  fix o_d_p n :: real and k :: "64 word"
  assume a: "k + 1 \<noteq> of_nat (lapLevels - 1)"
  have nz: "6 - k \<noteq> 0"
  proof
    assume "6 - k = 0"
    then have "k = 6" by simp
    with a show False by (simp add: lapLevels_def)
  qed
  have "unat (6 - k - 1) = unat (6 - k) - 1"
    using nz by (rule unat_minus_one)
  moreover have "0 < unat (6 - k)"
    using nz unat_gt_0 by blast
  moreover have "6 - (k + 1) = 6 - k - 1"
    by (simp only: diff_diff_eq add.commute)
  ultimately have "unat (6 - (k + 1)) < unat (6 - k)"
    by (simp only:)
  then show "((o_d_p, n * 2, k + 1), (o_d_p, n, k)) \<in> measure (\<lambda>(o_d_p, n, k). unat (6 - k))"
    by simp
qed

declare ai_loop.simps [simp del]

definition NewPerceptual :: "real \<Rightarrow> real \<Rightarrow> real \<Rightarrow> real \<Rightarrow> bool \<Rightarrow> perceptual" where
  "NewPerceptual g luminance f c nc =
     (let o_d_p = 2 * tan (f * 0.5 * pi / 180) * 180 / pi
      in \<lparr> gamma = g, lum = luminance, nocolor = nc, fov = f, cf = c, odp = o_d_p,
           ai = ai_loop o_d_p 1 0 \<rparr>)"

definition NewDefaultPerceptual :: perceptual where
  "NewDefaultPerceptual = NewPerceptual 2.2 100 45 1 False"

subsection \<open>LAB buffer and pyramid of one image\<close>

definition labLap :: "image \<Rightarrow> real \<Rightarrow> real
    \<Rightarrow> panic + (labColor list list \<times> real list list list)" where
  "labLap m g luminance =
     (let w = Dx (Bounds m); h = Dy (Bounds m)
      in if h < 0 then Inl MakeSliceLen
         else if 0 < h \<and> w < 0 then Inl MakeSliceLen
         else
           (let aLAB = map (\<lambda>y. map (\<lambda>x. case xyz (At m (int x) (int y)) g of
                                            (cx, cy, cz) \<Rightarrow> lab cx cy cz) [0..<nat w])
                           [0..<nat h];
                aLum = map (\<lambda>y. map (\<lambda>x. case xyz (At m (int x) (int y)) g of
                                            (cx, cy, cz) \<Rightarrow> cy * luminance) [0..<nat w])
                           [0..<nat h]
            in bind (pyramid aLum) (\<lambda>aLap. Inr (aLAB, aLap))))"

subsection \<open>The comparison\<close>

definition at3 :: "'a list list list \<Rightarrow> int \<Rightarrow> int \<Rightarrow> int \<Rightarrow> panic + 'a" where
  "at3 p l y x =
     (if 0 \<le> l \<and> l < int (length p) then at2 (p ! nat l) y x else Inl IndexOutOfRange)"

text \<open>\<open>cpd[0] = c\<close>, \<open>cpd[i] = 0.5 * cpd[i - 1]\<close>.\<close>

fun halves :: "nat \<Rightarrow> real \<Rightarrow> real list" where
  "halves 0 c = []"
| "halves (Suc k) c = c # halves k (0.5 * c)"

definition clamp_denominator :: "real \<Rightarrow> real" where
  "clamp_denominator dd = max dd 0.00001"

definition contrast_at :: "real list list list \<Rightarrow> real list list list \<Rightarrow> int \<Rightarrow> int \<Rightarrow> int
    \<Rightarrow> panic + real" where
  "contrast_at aLap bLap i y x =
     bind (at3 aLap i y x) (\<lambda>a0. bind (at3 aLap (i + 1) y x) (\<lambda>a1.
     bind (at3 bLap i y x) (\<lambda>b0. bind (at3 bLap (i + 1) y x) (\<lambda>b1.
     bind (at3 aLap (i + 2) y x) (\<lambda>a2. bind (at3 bLap (i + 2) y x) (\<lambda>b2.
       (let n1 = \<bar>a0 - a1\<bar>; n2 = \<bar>b0 - b1\<bar>; d1 = \<bar>a2\<bar>; d2 = \<bar>b2\<bar>; dd = max d1 d2
        in Inr (max n1 n2 / clamp_denominator dd))))))))"

definition clamp_contrastSum :: "real \<Rightarrow> real" where
  "clamp_contrastSum s = (if s < 0.00001 then 0.00001 else s)"

definition clamp_factor :: "real \<Rightarrow> real" where
  "clamp_factor f = (if f < 1 then 1 else if f > 10 then 10 else f)"

text \<open>
  The elevation factor of one pixel, from the contrasts of the \<open>lapLevels - 2\<close> levels:
  the masks, the contrast sum and its clamp, the weighted sum and its clamp.
\<close>

definition factor_of :: "real list \<Rightarrow> real list \<Rightarrow> real \<Rightarrow> real list \<Rightarrow> real" where
  "factor_of cpd freq adapt contrast =
     (let mask = map (\<lambda>i. vmask (contrast ! i * csf (cpd ! i) adapt)) [0..<lapLevels - 2];
          contrastSum = clamp_contrastSum (foldl (+) 0 contrast);
          factor = foldl (\<lambda>f i. f + contrast ! i * freq ! i * mask ! i / contrastSum) 0
                     [0..<lapLevels - 2]
      in clamp_factor factor)"

definition adapt_of :: "real \<Rightarrow> real \<Rightarrow> real" where
  "adapt_of aa ba = max (0.5 * (aa + ba)) 0.00001"

text \<open>Whether the pixel \<open>(x, y)\<close> passes.\<close>

definition pixel_pass :: "perceptual \<Rightarrow> real list \<Rightarrow> real list
    \<Rightarrow> labColor list list \<Rightarrow> labColor list list
    \<Rightarrow> real list list list \<Rightarrow> real list list list \<Rightarrow> int \<Rightarrow> int \<Rightarrow> panic + bool" where
  "pixel_pass d cpd freq aLAB bLAB aLap bLap y x =
     bind (at3 aLap (sint (ai d)) y x) (\<lambda>aa. bind (at3 bLap (sint (ai d)) y x) (\<lambda>ba.
     bind (sequence (map (\<lambda>i. contrast_at aLap bLap (int i) y x) [0..<lapLevels - 2]))
       (\<lambda>contrast.
     bind (at3 aLap 0 y x) (\<lambda>a0. bind (at3 bLap 0 y x) (\<lambda>b0.
       (let adapt = adapt_of aa ba;
            factor = factor_of cpd freq adapt contrast;
            delta = \<bar>a0 - b0\<bar>
        in if delta > factor * tvi adapt then Inr False
           else if \<not> nocolor d then
             (let c = (if adapt < 10 then 0 else cf d)
              in bind (at2 aLAB y x) (\<lambda>la. bind (at2 bLAB y x) (\<lambda>lb.
                   (let da = lab_a la - lab_a lb;
                        db = lab_b la - lab_b lb
                    in if (da * da + db * db) * c > factor then Inr False else Inr True))))
           else Inr True))))))"

definition render :: "bool \<Rightarrow> nrgba" where
  "render pass = (if \<not> pass then NRGBA 0xff 0 0 0xff else NRGBA 0 0 0 0xff)"

definition Compare :: "perceptual \<Rightarrow> image \<Rightarrow> image
    \<Rightarrow> panic + (nrgba list list option \<times> int \<times> error option)" where
  "Compare d a b =
     (let ab = Bounds a; bb = Bounds b; w = Dx ab; h = Dy ab
      in if w \<noteq> Dx bb \<or> h \<noteq> Dy bb then Inr (None, - 1, Some ErrSize)
         else
           bind (labLap a (gamma d) (lum d)) (\<lambda>(aLAB, aLap).
           bind (labLap b (gamma d) (lum d)) (\<lambda>(bLAB, bLap).
             (let cpd = halves lapLevels (0.5 * real_of_int w / odp d);
                  csfMax = csf 3.248 100;
                  freq = map (\<lambda>i. csfMax / csf (cpd ! i) 100) [0..<lapLevels - 2]
              in bind (sequence (map (\<lambda>y. sequence (map (\<lambda>x.
                          pixel_pass d cpd freq aLAB bLAB aLap bLap (int y) (int x))
                          [0..<nat w])) [0..<nat h]))
                   (\<lambda>rows. Inr (Some (map (map render) rows),
                                 int (length (filter Not (concat rows))), None))))))"

subsection \<open>The elevation factor on float64 with its special values\<close>

text \<open>
  The model above has neither infinity nor NaN. For the frequency weights and the
  elevation factor (\<^verbatim>\<open>csf\<close>, the cycles per degree, \<^verbatim>\<open>freq\<close>, and the weighted sum with
  its clamp) a second embedding keeps them: a \<^verbatim>\<open>float64\<close> is a finite real, \<open>+Inf\<close>,
  \<open>-Inf\<close> or NaN. On the special values the arithmetic is that of IEEE 754 (a product
  of zero and an infinity is NaN, NaN propagates, every comparison with NaN is false);
  \<^verbatim>\<open>math.Exp\<close> returns \<open>+Inf\<close> above the constant \<^verbatim>\<open>Overflow\<close> and 0 below the constant
  \<^verbatim>\<open>Underflow\<close> of package \<^verbatim>\<open>math\<close>; \<^verbatim>\<open>math.Sqrt\<close> and \<^verbatim>\<open>math.Pow\<close> have the special
  cases of their documentation, the exponent being a finite constant wherever the code
  calls \<^verbatim>\<open>math.Pow\<close>. A finite result is the exact real value: rounding, the sign of
  zero and the overflow of finite arithmetic are not modelled.
\<close>

datatype f64 = Fin real | PInf | NInf | NaN

fun fneg :: "f64 \<Rightarrow> f64" where
  "fneg (Fin x) = Fin (- x)"
| "fneg PInf = NInf"
| "fneg NInf = PInf"
| "fneg NaN = NaN"

fun fadd :: "f64 \<Rightarrow> f64 \<Rightarrow> f64" where
  "fadd (Fin x) (Fin y) = Fin (x + y)"
| "fadd (Fin x) PInf = PInf"
| "fadd (Fin x) NInf = NInf"
| "fadd PInf (Fin y) = PInf"
| "fadd PInf PInf = PInf"
| "fadd PInf NInf = NaN"
| "fadd NInf (Fin y) = NInf"
| "fadd NInf PInf = NaN"
| "fadd NInf NInf = NInf"
| "fadd NaN b = NaN"
| "fadd a NaN = NaN"

fun fmul :: "f64 \<Rightarrow> f64 \<Rightarrow> f64" where
  "fmul (Fin x) (Fin y) = Fin (x * y)"
| "fmul (Fin x) PInf = (if x = 0 then NaN else if 0 < x then PInf else NInf)"
| "fmul (Fin x) NInf = (if x = 0 then NaN else if 0 < x then NInf else PInf)"
| "fmul PInf (Fin y) = (if y = 0 then NaN else if 0 < y then PInf else NInf)"
| "fmul NInf (Fin y) = (if y = 0 then NaN else if 0 < y then NInf else PInf)"
| "fmul PInf PInf = PInf"
| "fmul PInf NInf = NInf"
| "fmul NInf PInf = NInf"
| "fmul NInf NInf = PInf"
| "fmul NaN b = NaN"
| "fmul a NaN = NaN"

fun fdiv :: "f64 \<Rightarrow> f64 \<Rightarrow> f64" where
  "fdiv (Fin x) (Fin y) =
     (if y = 0 then (if x = 0 then NaN else if 0 < x then PInf else NInf) else Fin (x / y))"
| "fdiv (Fin x) PInf = Fin 0"
| "fdiv (Fin x) NInf = Fin 0"
| "fdiv PInf (Fin y) = (if 0 \<le> y then PInf else NInf)"
| "fdiv NInf (Fin y) = (if 0 \<le> y then NInf else PInf)"
| "fdiv PInf PInf = NaN"
| "fdiv PInf NInf = NaN"
| "fdiv NInf PInf = NaN"
| "fdiv NInf NInf = NaN"
| "fdiv NaN b = NaN"
| "fdiv a NaN = NaN"

fun flt :: "f64 \<Rightarrow> f64 \<Rightarrow> bool" where
  "flt (Fin x) (Fin y) = (x < y)"
| "flt (Fin x) PInf = True"
| "flt (Fin x) NInf = False"
| "flt PInf b = False"
| "flt NInf (Fin y) = True"
| "flt NInf PInf = True"
| "flt NInf NInf = False"
| "flt NaN b = False"
| "flt a NaN = False"

definition fgt :: "f64 \<Rightarrow> f64 \<Rightarrow> bool" where
  "fgt a b = flt b a"

fun fexp :: "f64 \<Rightarrow> f64" where
  "fexp (Fin x) =
     (if x > 709.782712893383973096 then PInf
      else if x < - 745.133219101941108420 then Fin 0
      else Fin (exp x))"
| "fexp PInf = PInf"
| "fexp NInf = Fin 0"
| "fexp NaN = NaN"

fun fsqrt :: "f64 \<Rightarrow> f64" where
  "fsqrt (Fin x) = (if x < 0 then NaN else Fin (sqrt x))"
| "fsqrt PInf = PInf"
| "fsqrt NInf = NaN"
| "fsqrt NaN = NaN"

definition odd_integer :: "real \<Rightarrow> bool" where
  "odd_integer y = (y \<in> \<int> \<and> odd \<lfloor>y\<rfloor>)"

fun fpow_nonzero :: "f64 \<Rightarrow> real \<Rightarrow> f64" where
  "fpow_nonzero (Fin b) y =
     (if b = 0 then (if y < 0 then PInf else Fin 0)
      else if 0 < b then Fin (b powr y)
      else if y \<in> \<int> then Fin (if odd_integer y then - (\<bar>b\<bar> powr y) else \<bar>b\<bar> powr y)
      else NaN)"
| "fpow_nonzero PInf y = (if 0 < y then PInf else Fin 0)"
| "fpow_nonzero NInf y =
     (if 0 < y then (if odd_integer y then NInf else PInf) else Fin 0)"
| "fpow_nonzero NaN y = NaN"

definition fpow :: "f64 \<Rightarrow> real \<Rightarrow> f64" where
  "fpow x y = (if y = 0 \<or> x = Fin 1 then Fin 1 else fpow_nonzero x y)"

text \<open>\<^verbatim>\<open>csf\<close>, then \<^verbatim>\<open>cpd\<close> and \<^verbatim>\<open>freq\<close> of \<^verbatim>\<open>Compare\<close>.\<close>

definition csfF :: "f64 \<Rightarrow> f64 \<Rightarrow> f64" where
  "csfF cpd lm =
     (let a = fmul (Fin 440) (fpow (fadd (Fin 1) (fdiv (Fin 0.7) lm)) (- 0.2));
          b = fmul (Fin 0.3) (fpow (fadd (Fin 1) (fdiv (Fin 100) lm)) 0.15)
      in fmul (fmul (fmul a cpd) (fexp (fmul (fneg b) cpd)))
           (fsqrt (fadd (Fin 1) (fmul (Fin 0.06) (fexp (fmul b cpd))))))"

fun halvesF :: "nat \<Rightarrow> f64 \<Rightarrow> f64 list" where
  "halvesF 0 c = []"
| "halvesF (Suc k) c = c # halvesF k (fmul (Fin 0.5) c)"

definition cpdF :: "int \<Rightarrow> f64 \<Rightarrow> f64 list" where
  "cpdF w o_d_p = halvesF lapLevels (fdiv (fmul (Fin 0.5) (Fin (real_of_int w))) o_d_p)"

definition freqF :: "f64 list \<Rightarrow> f64 list" where
  "freqF cpd = map (\<lambda>i. fdiv (csfF (Fin 3.248) (Fin 100)) (csfF (cpd ! i) (Fin 100)))
                 [0..<lapLevels - 2]"

text \<open>
  The weighted sum of the \<open>lapLevels - 2\<close> levels and its clamp, for any contrasts, weights,
  masks and contrast sum:
  \<^verbatim>\<open>factor += contrast[i] * freq[i] * mask[i] / contrastSum\<close>, then
  \<^verbatim>\<open>if factor < 1 { factor = 1 } else if factor > 10 { factor = 10 }\<close>.
\<close>

definition clampF :: "f64 \<Rightarrow> f64" where
  "clampF f = (if flt f (Fin 1) then Fin 1 else if fgt f (Fin 10) then Fin 10 else f)"

definition factorF :: "f64 list \<Rightarrow> f64 list \<Rightarrow> f64 list \<Rightarrow> f64 \<Rightarrow> f64" where
  "factorF contrast freq masks contrastSum =
     clampF (foldl (\<lambda>f i. fadd f (fdiv (fmul (fmul (contrast ! i) (freq ! i)) (masks ! i)) contrastSum))
               (Fin 0) [0..<lapLevels - 2])"

text \<open>
  \<^verbatim>\<open>vmask\<close>, whose first power has the base \<^verbatim>\<open>392.498*c\<close>, and the factor of one pixel
  from its adaptation luminance and its contrasts: the masks
  \<^verbatim>\<open>mask[i] = vmask(contrast[i] * csf(cpd[i], adapt))\<close>, the clamp
  \<^verbatim>\<open>if contrastSum < 1e-5 { contrastSum = 1e-5 }\<close> and the weighted sum.
\<close>

definition vmask_baseF :: "f64 \<Rightarrow> f64" where
  "vmask_baseF c = fmul (Fin 392.498) c"

definition vmaskF :: "f64 \<Rightarrow> f64" where
  "vmaskF c =
     (let a = fpow (vmask_baseF c) 0.7;
          b = fpow (fmul (Fin 0.0153) a) 4
      in fpow (fadd (Fin 1) b) 0.25)"

definition clamp_contrastSumF :: "f64 \<Rightarrow> f64" where
  "clamp_contrastSumF s = (if flt s (Fin 0.00001) then Fin 0.00001 else s)"

definition factor_ofF :: "f64 list \<Rightarrow> f64 list \<Rightarrow> f64 \<Rightarrow> f64 list \<Rightarrow> f64" where
  "factor_ofF cpd freq adapt contrast =
     (let masks = map (\<lambda>i. vmaskF (fmul (contrast ! i) (csfF (cpd ! i) adapt))) [0..<lapLevels - 2];
          contrastSum = clamp_contrastSumF (foldl fadd (Fin 0) contrast)
      in factorF contrast freq masks contrastSum)"

text \<open>A \<^verbatim>\<open>float64\<close> that is a number of the closed interval from \<open>lo\<close> to \<open>hi\<close>.\<close>

fun inside :: "real \<Rightarrow> real \<Rightarrow> f64 \<Rightarrow> bool" where
  "inside lo hi (Fin x) = (lo \<le> x \<and> x \<le> hi)"
| "inside lo hi PInf = False"
| "inside lo hi NInf = False"
| "inside lo hi NaN = False"

text \<open>A \<^verbatim>\<open>float64\<close> that is a number and at least 0, or \<open>+Inf\<close>.\<close>

fun non_negative :: "f64 \<Rightarrow> bool" where
  "non_negative (Fin x) = (0 \<le> x)"
| "non_negative PInf = True"
| "non_negative NInf = False"
| "non_negative NaN = False"

section \<open>Notions used in the statements\<close>

subsection \<open>Buffers of a given shape\<close>

text \<open>
  A two-dimensional buffer of \<open>h\<close> rows of \<open>w\<close> entries each, and a pyramid of
  \<open>lapLevels\<close> such buffers.
\<close>

definition rect :: "nat \<Rightarrow> nat \<Rightarrow> 'a list list \<Rightarrow> bool" where
  "rect h w p = (length p = h \<and> list_all (\<lambda>row. length row = w) p)"

definition shaped :: "nat \<Rightarrow> nat \<Rightarrow> 'a list list list \<Rightarrow> bool" where
  "shaped h w lap = (length lap = lapLevels \<and> list_all (rect h w) lap)"

subsection \<open>The convolution as a value\<close>

text \<open>
  The value of one pixel of the next pyramid level when every read succeeds: the 5 by 5
  sum with the weights \<open>lapKernel[i+2] * lapKernel[j+2]\<close>, read at the adjusted indices;
  then a whole level, and the levels above a given one.
\<close>

definition conv_val :: "real list list \<Rightarrow> int \<Rightarrow> int \<Rightarrow> int \<Rightarrow> int \<Rightarrow> real" where
  "conv_val prev h w y x =
     (\<Sum>i\<leftarrow>[-2, -1, 0, 1, 2]. \<Sum>j\<leftarrow>[-2, -1, 0, 1, 2].
        lapKernel ! nat (i + 2) * lapKernel ! nat (j + 2)
          * prev ! nat (reflect h (y + j)) ! nat (reflect w (x + i)))"

definition conv_pure :: "real list list \<Rightarrow> nat \<Rightarrow> nat \<Rightarrow> real list list" where
  "conv_pure prev h w =
     map (\<lambda>y. map (\<lambda>x. conv_val prev (int h) (int w) (int y) (int x)) [0..<w]) [0..<h]"

fun levels_pure :: "nat \<Rightarrow> nat \<Rightarrow> nat \<Rightarrow> real list list \<Rightarrow> real list list list" where
  "levels_pure 0 h w prev = []"
| "levels_pure (Suc k) h w prev = conv_pure prev h w # levels_pure k h w (conv_pure prev h w)"

text \<open>
  The index adjustment as the specification words it (one case distinction on the
  original index), and the separable convolution for a given index adjustment \<open>r\<close>:
  a pass along the row with the 5-tap kernel, then a pass along the column.
\<close>

definition spec_reflect :: "int \<Rightarrow> int \<Rightarrow> int" where
  "spec_reflect n i = (if i < 0 then - i else if i \<ge> n then 2 * n - i - 1 else i)"

definition sep_conv :: "(int \<Rightarrow> int \<Rightarrow> int) \<Rightarrow> real list list \<Rightarrow> int \<Rightarrow> int \<Rightarrow> int \<Rightarrow> int \<Rightarrow> real" where
  "sep_conv r prev h w y x =
     (\<Sum>j\<leftarrow>[-2, -1, 0, 1, 2]. lapKernel ! nat (j + 2) *
        (\<Sum>i\<leftarrow>[-2, -1, 0, 1, 2]. lapKernel ! nat (i + 2) * prev ! nat (r h (y + j)) ! nat (r w (x + i))))"

subsection \<open>The comparison as a value\<close>

text \<open>
  What one pixel computes once every read has succeeded: the contrast of level \<open>i\<close> and
  the verdict of the pixel, as plain functions of the buffers.
\<close>

definition contrast_pure :: "real list list list \<Rightarrow> real list list list \<Rightarrow> nat \<Rightarrow> nat \<Rightarrow> nat \<Rightarrow> real" where
  "contrast_pure aLap bLap i y x =
     max \<bar>aLap ! i ! y ! x - aLap ! (i + 1) ! y ! x\<bar> \<bar>bLap ! i ! y ! x - bLap ! (i + 1) ! y ! x\<bar>
       / clamp_denominator (max \<bar>aLap ! (i + 2) ! y ! x\<bar> \<bar>bLap ! (i + 2) ! y ! x\<bar>)"

definition pass_pure :: "perceptual \<Rightarrow> real list \<Rightarrow> real list
    \<Rightarrow> labColor list list \<Rightarrow> labColor list list
    \<Rightarrow> real list list list \<Rightarrow> real list list list \<Rightarrow> nat \<Rightarrow> nat \<Rightarrow> bool" where
  "pass_pure d cpd freq aLAB bLAB aLap bLap y x =
     (let k = nat (sint (ai d));
          adapt = adapt_of (aLap ! k ! y ! x) (bLap ! k ! y ! x);
          contrast = map (\<lambda>i. contrast_pure aLap bLap i y x) [0..<lapLevels - 2];
          factor = factor_of cpd freq adapt contrast;
          delta = \<bar>aLap ! 0 ! y ! x - bLap ! 0 ! y ! x\<bar>
      in if delta > factor * tvi adapt then False
         else if \<not> nocolor d then
           (let c = (if adapt < 10 then 0 else cf d);
                da = lab_a (aLAB ! y ! x) - lab_a (bLAB ! y ! x);
                db = lab_b (aLAB ! y ! x) - lab_b (bLAB ! y ! x)
            in if (da * da + db * db) * c > factor then False else True)
         else True)"

text \<open>
  The panic of \<open>labLap\<close> as a function of the width and height of the image, and its
  two buffers when there is none.
\<close>

definition labLap_panic :: "int \<Rightarrow> int \<Rightarrow> panic option" where
  "labLap_panic w h =
     (if h < 0 \<or> (0 < h \<and> w < 0) then Some MakeSliceLen
      else if h = 0 \<or> (1 \<le> w \<and> (h = 1 \<or> w = 1)) then Some IndexOutOfRange
      else None)"

definition LAB_of :: "perceptual \<Rightarrow> image \<Rightarrow> labColor list list" where
  "LAB_of d m = fst (projr (labLap m (gamma d) (lum d)))"

definition Lap_of :: "perceptual \<Rightarrow> image \<Rightarrow> real list list list" where
  "Lap_of d m = snd (projr (labLap m (gamma d) (lum d)))"

text \<open>
  The cycles per degree and frequency weights of a comparison, the verdicts of all
  pixels, the number of failing pixels, and the returned triple.
\<close>

definition cpd_of :: "perceptual \<Rightarrow> int \<Rightarrow> real list" where
  "cpd_of d w = halves lapLevels (0.5 * real_of_int w / odp d)"

definition freq_of :: "perceptual \<Rightarrow> int \<Rightarrow> real list" where
  "freq_of d w = map (\<lambda>i. csf 3.248 100 / csf (cpd_of d w ! i) 100) [0..<lapLevels - 2]"

definition pass_rows :: "perceptual \<Rightarrow> int \<Rightarrow> int \<Rightarrow> labColor list list \<Rightarrow> labColor list list
    \<Rightarrow> real list list list \<Rightarrow> real list list list \<Rightarrow> bool list list" where
  "pass_rows d w h aLAB bLAB aLap bLap =
     map (\<lambda>y. map (\<lambda>x. pass_pure d (cpd_of d w) (freq_of d w) aLAB bLAB aLap bLap y x) [0..<nat w])
       [0..<nat h]"

definition failures :: "bool list list \<Rightarrow> nat" where
  "failures rows = length (filter Not (concat rows))"

definition result_of :: "bool list list \<Rightarrow> nrgba list list option \<times> int \<times> error option" where
  "result_of rows = (Some (map (map render) rows), int (length (filter Not (concat rows))), None)"

text \<open>
  The size check passes; the adaptation index is a level of the pyramid.
\<close>

definition same_size :: "image \<Rightarrow> image \<Rightarrow> bool" where
  "same_size a b = (Dx (Bounds a) = Dx (Bounds b) \<and> Dy (Bounds a) = Dy (Bounds b))"

definition valid_ai :: "perceptual \<Rightarrow> bool" where
  "valid_ai d = (0 \<le> sint (ai d) \<and> sint (ai d) < int lapLevels)"

text \<open>
  Two outcomes of a comparison where the first count is at most the second: both
  return, with the same error value, or both panic alike.
\<close>

fun count_le :: "panic + (nrgba list list option \<times> int \<times> error option)
    \<Rightarrow> panic + (nrgba list list option \<times> int \<times> error option) \<Rightarrow> bool" where
  "count_le (Inr (img1, n1, e1)) (Inr (img2, n2, e2)) = (n1 \<le> n2 \<and> e1 = e2)"
| "count_le (Inl p1) (Inl p2) = (p1 = p2)"
| "count_le (Inl p1) (Inr r2) = False"
| "count_le (Inr r1) (Inl p2) = False"

text \<open>
  The two images have equal sizes, their buffers exist, and at every pixel the shared
  adaptation luminance \<open>max (0.5 * (aLap[ai][y][x] + bLap[ai][y][x])) 1e-5\<close> is below 10.
\<close>

definition scotopic :: "perceptual \<Rightarrow> image \<Rightarrow> image \<Rightarrow> bool" where
  "scotopic d a b =
     (same_size a b \<and>
      (case labLap a (gamma d) (lum d) of
         Inl p \<Rightarrow> False
       | Inr (aLAB, aLap) \<Rightarrow>
           (case labLap b (gamma d) (lum d) of
              Inl p \<Rightarrow> False
            | Inr (bLAB, bLap) \<Rightarrow>
                list_all (\<lambda>y. list_all (\<lambda>x.
                    adapt_of (aLap ! nat (sint (ai d)) ! y ! x) (bLap ! nat (sint (ai d)) ! y ! x) < 10)
                  [0..<nat (Dx (Bounds a))]) [0..<nat (Dy (Bounds a))])))"

subsection \<open>Some images\<close>

text \<open>
  \<^verbatim>\<open>image.NewNRGBA(image.Rect(0, 0, w, h))\<close>, every pixel zero; an image with every
  pixel opaque white; an image with every pixel opaque blue.
\<close>

definition blank :: "int \<Rightarrow> int \<Rightarrow> image" where
  "blank w h = \<lparr> Bounds = \<lparr> Min_pt = \<lparr> X = 0, Y = 0 \<rparr>, Max_pt = \<lparr> X = w, Y = h \<rparr> \<rparr>,
                 At = (\<lambda>x y. RGBA 0 0 0 0) \<rparr>"

definition white_image :: "int \<Rightarrow> int \<Rightarrow> image" where
  "white_image w h = \<lparr> Bounds = \<lparr> Min_pt = \<lparr> X = 0, Y = 0 \<rparr>, Max_pt = \<lparr> X = w, Y = h \<rparr> \<rparr>,
                       At = (\<lambda>x y. RGBA 0xffff 0xffff 0xffff 0xffff) \<rparr>"

definition blue_image :: "int \<Rightarrow> int \<Rightarrow> image" where
  "blue_image w h = \<lparr> Bounds = \<lparr> Min_pt = \<lparr> X = 0, Y = 0 \<rparr>, Max_pt = \<lparr> X = w, Y = h \<rparr> \<rparr>,
                      At = (\<lambda>x y. RGBA 0 0 0xffff 0xffff) \<rparr>"

section \<open>Properties\<close>

subsection \<open>The pyramid on maps of at least two rows and columns\<close>

lemma bind_Inr [simp]: "bind (Inr v) f = f v"
  by (simp add: bind_def)

lemma bind_Inl [simp]: "bind (Inl p) f = Inl p"
  by (simp add: bind_def)

lemma sequence_Inr: "(\<And>x. x \<in> set xs \<Longrightarrow> g x = Inr (f x)) \<Longrightarrow> sequence (map g xs) = Inr (map f xs)"
  by (induction xs) simp_all

lemma reflect_lower: "2 \<le> n \<Longrightarrow> 0 \<le> y \<Longrightarrow> y < n \<Longrightarrow> - 2 \<le> j \<Longrightarrow> j \<le> 2 \<Longrightarrow> 0 \<le> reflect n (y + j)"
  by (simp add: reflect_def Let_def)

lemma reflect_upper: "2 \<le> n \<Longrightarrow> 0 \<le> y \<Longrightarrow> y < n \<Longrightarrow> - 2 \<le> j \<Longrightarrow> j \<le> 2 \<Longrightarrow> reflect n (y + j) < n"
  by (simp add: reflect_def Let_def)

lemma reflect_1: "reflect 1 (0 + 2) = - 1"
  by (simp add: reflect_def)

lemma offsets_range: "(i, j) \<in> set offsets \<Longrightarrow> - 2 \<le> i \<and> i \<le> 2 \<and> - 2 \<le> j \<and> j \<le> 2"
  by (auto simp: offsets_def)


lemma rect_nth: "rect h w p \<Longrightarrow> y < h \<Longrightarrow> length (p ! y) = w"
  by (simp add: rect_def list_all_length)

lemma at2_ok:
  "rect h w p \<Longrightarrow> 0 \<le> y \<Longrightarrow> y < int h \<Longrightarrow> 0 \<le> x \<Longrightarrow> x < int w
    \<Longrightarrow> at2 p y x = Inr (p ! nat y ! nat x)"
  by (simp add: at2_def rect_def list_all_length)

lemma conv_acc_ok:
  assumes "rect h w prev" "2 \<le> h" "2 \<le> w" "y < h" "x < w"
  shows "set ijs \<subseteq> set offsets \<Longrightarrow>
    conv_acc prev (int h) (int w) (int y) (int x) ijs acc =
      Inr (acc + (\<Sum>(i, j)\<leftarrow>ijs. lapKernel ! nat (i + 2) * lapKernel ! nat (j + 2)
          * prev ! nat (reflect (int h) (int y + j)) ! nat (reflect (int w) (int x + i))))"
proof (induction ijs arbitrary: acc)
  case Nil
  then show ?case by simp
next
  case (Cons ij ijs)
  obtain i j where ij: "ij = (i, j)" by (cases ij)
  with Cons.prems have r: "- 2 \<le> i" "i \<le> 2" "- 2 \<le> j" "j \<le> 2"
    using offsets_range [of i j] by auto
  have "at2 prev (reflect (int h) (int y + j)) (reflect (int w) (int x + i)) =
      Inr (prev ! nat (reflect (int h) (int y + j)) ! nat (reflect (int w) (int x + i)))"
  proof (rule at2_ok [OF assms(1)])
    show "0 \<le> reflect (int h) (int y + j)" using assms r by (intro reflect_lower) simp_all
    show "reflect (int h) (int y + j) < int h" using assms r by (intro reflect_upper) simp_all
    show "0 \<le> reflect (int w) (int x + i)" using assms r by (intro reflect_lower) simp_all
    show "reflect (int w) (int x + i) < int w" using assms r by (intro reflect_upper) simp_all
  qed
  moreover have "set ijs \<subseteq> set offsets"
    using Cons.prems by simp
  ultimately show ?case
    using Cons.IH by (simp add: ij add.assoc)
qed

lemma offsets_sum:
  "(\<Sum>(i, j)\<leftarrow>offsets. f i j) = (\<Sum>i\<leftarrow>[-2, -1, 0, 1, 2]. \<Sum>j\<leftarrow>[-2, -1, 0, 1, 2]. (f i j :: real))"
  by (simp add: offsets_def)

lemma conv_level_ok:
  assumes "rect h w prev" "2 \<le> h" "2 \<le> w"
  shows "conv_level prev h w = Inr (conv_pure prev h w)"
proof -
  have px: "conv_acc prev (int h) (int w) (int y) (int x) offsets 0 =
      Inr (conv_val prev (int h) (int w) (int y) (int x))" if "y < h" "x < w" for y x
    using conv_acc_ok [OF assms that, of offsets 0]
    by (simp add: conv_val_def offsets_sum)
  have row: "sequence (map (\<lambda>x. conv_acc prev (int h) (int w) (int y) (int x) offsets 0) [0..<w]) =
      Inr (map (\<lambda>x. conv_val prev (int h) (int w) (int y) (int x)) [0..<w])" if "y < h" for y
    using that by (intro sequence_Inr px) simp_all
  show ?thesis
    unfolding conv_level_def conv_pure_def
    by (intro sequence_Inr row) simp
qed

lemma rect_conv_pure: "rect h w (conv_pure prev h w)"
  by (simp add: rect_def conv_pure_def list_all_length)

lemma build_levels_ok:
  "rect h w prev \<Longrightarrow> 2 \<le> h \<Longrightarrow> 2 \<le> w \<Longrightarrow> build_levels k h w prev = Inr (levels_pure k h w prev)"
  by (induction k arbitrary: prev) (simp_all add: conv_level_ok rect_conv_pure)

lemma length_levels_pure [simp]: "length (levels_pure k h w prev) = k"
  by (induction k arbitrary: prev) simp_all

lemma levels_pure_step:
  "j < k \<Longrightarrow> (prev # levels_pure k h w prev) ! Suc j = conv_pure ((prev # levels_pure k h w prev) ! j) h w"
proof (induction k arbitrary: prev j)
  case 0
  then show ?case by simp
next
  case (Suc k)
  then show ?case by (cases j) simp_all
qed

lemma levels_pure_rect:
  "j < k \<Longrightarrow> rect h w (levels_pure k h w prev ! j)"
proof (induction k arbitrary: prev j)
  case 0
  then show ?case by simp
next
  case (Suc k)
  then show ?case by (cases j) (simp_all add: rect_conv_pure)
qed

lemma copy_row_id: "length row = w \<Longrightarrow> copy_row w row = row"
  by (simp add: copy_row_def)

lemma map_copy_row_rect: "rect h w m \<Longrightarrow> map (copy_row w) m = m"
  by (simp add: rect_def list_all_iff map_idI copy_row_id)

lemma pyramid_unfold:
  "m \<noteq> [] \<Longrightarrow> pyramid m =
     bind (build_levels (lapLevels - 1) (length m) (length (hd m)) (map (copy_row (length (hd m))) m))
       (\<lambda>rest. Inr (map (copy_row (length (hd m))) m # rest))"
  by (cases m) (simp_all add: pyramid_def Let_def)

lemma pyramid_ok:
  assumes "rect h w m" "2 \<le> h" "2 \<le> w"
  shows "pyramid m = Inr (m # levels_pure (lapLevels - 1) h w m)"
proof -
  from assms have ne: "m \<noteq> []" and h: "length m = h"
    by (auto simp: rect_def)
  then have "hd m \<in> set m" by simp
  with assms have w: "length (hd m) = w"
    by (simp add: rect_def list_all_iff)
  show ?thesis
    using assms by (simp add: pyramid_unfold [OF ne] h w map_copy_row_rect build_levels_ok)
qed

lemma at2_neg: "y < 0 \<or> x < 0 \<Longrightarrow> at2 p y x = Inl IndexOutOfRange"
  by (auto simp: at2_def)

lemma conv_acc_corner_panic:
  assumes "h = 1 \<or> w = 1"
  shows "conv_acc prev h w 0 0 offsets 0 = Inl IndexOutOfRange"
proof -
  have "reflect h (0 + - 2) < 0 \<or> reflect w (0 + - 2) < 0"
    using assms by (auto simp: reflect_def)
  then have "at2 prev (reflect h (0 + - 2)) (reflect w (0 + - 2)) = Inl IndexOutOfRange"
    by (rule at2_neg)
  moreover have "offsets = (- 2, - 2) # tl offsets"
    by (simp add: offsets_def)
  ultimately show ?thesis
    by (metis bind_Inl conv_acc.simps(2))
qed

lemma conv_level_panic:
  assumes "1 \<le> h" "1 \<le> w" "h = 1 \<or> w = 1"
  shows "conv_level prev h w = Inl IndexOutOfRange"
proof -
  have hh: "[0..<h] = 0 # [1..<h]" and ww: "[0..<w] = 0 # [1..<w]"
    using assms by (simp_all add: upt_conv_Cons)
  have "conv_acc prev (int h) (int w) 0 0 offsets 0 = Inl IndexOutOfRange"
    using assms by (intro conv_acc_corner_panic) auto
  then show ?thesis
    by (simp add: conv_level_def hh ww)
qed

lemma build_levels_panic:
  assumes "1 \<le> h" "1 \<le> w" "h = 1 \<or> w = 1"
  shows "build_levels (Suc k) h w prev = Inl IndexOutOfRange"
  using conv_level_panic [OF assms] by simp

lemma pyramid_panic:
  assumes "rect h w m" "1 \<le> h" "1 \<le> w" "h = 1 \<or> w = 1"
  shows "pyramid m = Inl IndexOutOfRange"
proof -
  from assms have ne: "m \<noteq> []" and h: "length m = h"
    by (auto simp: rect_def)
  then have "hd m \<in> set m" by simp
  with assms have w: "length (hd m) = w"
    by (simp add: rect_def list_all_iff)
  have "lapLevels - 1 = Suc 6" by (simp add: lapLevels_def)
  then show ?thesis
    using build_levels_panic [OF assms(2-4)]
    by (simp only: pyramid_unfold [OF ne] h w bind_Inl)
qed

lemma pyramid_empty: "pyramid [] = Inl IndexOutOfRange"
  by (simp add: pyramid_def)

subsection \<open>The index adjustment stays in bounds\<close>

text \<open>
  Claim C10. In a dimension of size \<open>n \<ge> 2\<close>, the two-step adjustment (a negative
  index \<open>i\<close> becomes \<open>- i\<close>, then an index \<open>i \<ge> n\<close> becomes \<open>2n - i - 1\<close>) sends
  every position \<open>y\<close> in \<open>[0, n)\<close> moved by an offset in \<open>[-2, 2]\<close> into \<open>[0, n)\<close>,
  so no read of the convolution is out of range. Both dimensions must be at least 2:
  on a map with at least one row and one column, \<open>pyramid\<close> returns exactly when
  both are.
\<close>

theorem pyramid_in_bounds:
  "(2 \<le> n \<longrightarrow> (\<forall>y j. 0 \<le> y \<and> y < n \<and> - 2 \<le> j \<and> j \<le> 2
        \<longrightarrow> 0 \<le> reflect n (y + j) \<and> reflect n (y + j) < n))
   \<and> (rect h w m \<and> 1 \<le> h \<and> 1 \<le> w
        \<longrightarrow> ((\<exists>p. pyramid m = Inr p) \<longleftrightarrow> 2 \<le> h \<and> 2 \<le> w))"
proof (intro conjI impI allI)
  fix y j :: int assume "2 \<le> n" "0 \<le> y \<and> y < n \<and> - 2 \<le> j \<and> j \<le> 2"
  then show "0 \<le> reflect n (y + j)" "reflect n (y + j) < n"
    by (simp_all add: reflect_lower reflect_upper)
next
  assume a: "rect h w m \<and> 1 \<le> h \<and> 1 \<le> w"
  show "(\<exists>p. pyramid m = Inr p) \<longleftrightarrow> 2 \<le> h \<and> 2 \<le> w"
  proof (cases "2 \<le> h \<and> 2 \<le> w")
    case True
    with a show ?thesis by (simp add: pyramid_ok)
  next
    case False
    with a have "h = 1 \<or> w = 1" by auto
    with a have "pyramid m = Inl IndexOutOfRange"
      by (intro pyramid_panic [of h w]) simp_all
    with False show ?thesis by simp
  qed
qed

theorem pyramid_in_bounds_witness:
  "0 \<le> reflect 2 (0 + - 2) \<and> reflect 2 (0 + - 2) < 2
   \<and> (\<exists>p. pyramid [[1, 2], [3, 4]] = Inr p)"
proof -
  note inst = pyramid_in_bounds [of 2 2 2 "[[1, 2], [3, 4]]"]
  have "0 \<le> reflect 2 (0 + - 2) \<and> reflect 2 (0 + - 2) < 2"
    using inst by fastforce
  moreover have "\<exists>p. pyramid [[1, 2], [3, 4]] = Inr p"
    using inst by (simp add: rect_def)
  ultimately show ?thesis by simp
qed

subsection \<open>The elevation factor\<close>

lemma clamp_factor_range: "1 \<le> clamp_factor f \<and> clamp_factor f \<le> 10"
  by (simp add: clamp_factor_def)

subsection \<open>The adaptation index\<close>

lemma pow2_below: "\<not> o_d_p < (2::real) ^ m \<Longrightarrow> o_d_p < 2 ^ y \<Longrightarrow> m < y"
proof (rule ccontr)
  assume a: "\<not> o_d_p < (2::real) ^ m" "o_d_p < 2 ^ y" "\<not> m < y"
  then have "(2::real) ^ y \<le> 2 ^ m"
    by (intro power_increasing) simp_all
  with a show False by simp
qed

lemma least_pow2_0: "o_d_p < 1 \<Longrightarrow> (LEAST j. o_d_p < (2::real) ^ j) = 0"
  by (rule Least_equality) simp_all

lemma least_pow2_Suc:
  assumes "\<not> o_d_p < (2::real) ^ m" "o_d_p < 2 ^ Suc m"
  shows "(LEAST j. o_d_p < (2::real) ^ j) = Suc m"
proof (rule Least_equality)
  show "o_d_p < 2 ^ Suc m" by fact
next
  fix y assume "o_d_p < 2 ^ y"
  with assms(1) have "m < y" by (rule pow2_below)
  then show "Suc m \<le> y" by simp
qed

lemma least_pow2_ge:
  assumes "\<not> o_d_p < (2::real) ^ m"
  shows "m < (LEAST j. o_d_p < (2::real) ^ j)"
proof -
  obtain n where "o_d_p < (2::real) ^ n"
    using real_arch_pow [of 2 o_d_p] by auto
  then have "o_d_p < 2 ^ (LEAST j. o_d_p < (2::real) ^ j)"
    by (rule LeastI)
  with assms show ?thesis by (rule pow2_below)
qed

lemma ai_loop_6: "ai_loop o_d_p 64 6 = (if 64 > o_d_p then 6 else 7)"
  by (subst ai_loop.simps) (simp add: lapLevels_def)

lemma ai_loop_5: "ai_loop o_d_p 32 5 = (if 32 > o_d_p then 5 else ai_loop o_d_p 64 6)"
  by (subst ai_loop.simps) (simp add: lapLevels_def)

lemma ai_loop_4: "ai_loop o_d_p 16 4 = (if 16 > o_d_p then 4 else ai_loop o_d_p 32 5)"
  by (subst ai_loop.simps) (simp add: lapLevels_def)

lemma ai_loop_3: "ai_loop o_d_p 8 3 = (if 8 > o_d_p then 3 else ai_loop o_d_p 16 4)"
  by (subst ai_loop.simps) (simp add: lapLevels_def)

lemma ai_loop_2: "ai_loop o_d_p 4 2 = (if 4 > o_d_p then 2 else ai_loop o_d_p 8 3)"
  by (subst ai_loop.simps) (simp add: lapLevels_def)

lemma ai_loop_1: "ai_loop o_d_p 2 1 = (if 2 > o_d_p then 1 else ai_loop o_d_p 4 2)"
  by (subst ai_loop.simps) (simp add: lapLevels_def)

lemma ai_loop_0: "ai_loop o_d_p 1 0 = (if 1 > o_d_p then 0 else ai_loop o_d_p 2 1)"
  by (subst ai_loop.simps) (simp add: lapLevels_def)

lemma ai_loop_chain:
  "ai_loop o_d_p 1 0 =
     (if o_d_p < 1 then 0 else if o_d_p < 2 then 1 else if o_d_p < 4 then 2
      else if o_d_p < 8 then 3 else if o_d_p < 16 then 4 else if o_d_p < 32 then 5
      else if o_d_p < 64 then 6 else 7)"
  by (simp add: ai_loop_0 ai_loop_1 ai_loop_2 ai_loop_3 ai_loop_4 ai_loop_5 ai_loop_6)


lemma ai_loop_least:
  "unat (ai_loop o_d_p 1 0) = min (LEAST k. o_d_p < 2 ^ k) (lapLevels - 1)"
proof -
  consider "o_d_p < 1" | "\<not> o_d_p < 2 ^ 0" "o_d_p < 2 ^ Suc 0"
    | "\<not> o_d_p < 2 ^ 1" "o_d_p < 2 ^ Suc 1" | "\<not> o_d_p < 2 ^ 2" "o_d_p < 2 ^ Suc 2"
    | "\<not> o_d_p < 2 ^ 3" "o_d_p < 2 ^ Suc 3" | "\<not> o_d_p < 2 ^ 4" "o_d_p < 2 ^ Suc 4"
    | "\<not> o_d_p < 2 ^ 5" "o_d_p < 2 ^ Suc 5" | "\<not> o_d_p < 2 ^ 6"
    by fastforce
  then show ?thesis
  proof cases
    case 1
    then show ?thesis by (simp add: ai_loop_chain least_pow2_0)
  next
    case 2
    from least_pow2_Suc [OF this] 2 show ?thesis by (simp add: ai_loop_chain lapLevels_def)
  next
    case 3
    from least_pow2_Suc [OF this] 3 show ?thesis by (simp add: ai_loop_chain lapLevels_def)
  next
    case 4
    from least_pow2_Suc [OF this] 4 show ?thesis by (simp add: ai_loop_chain lapLevels_def)
  next
    case 5
    from least_pow2_Suc [OF this] 5 show ?thesis by (simp add: ai_loop_chain lapLevels_def)
  next
    case 6
    from least_pow2_Suc [OF this] 6 show ?thesis by (simp add: ai_loop_chain lapLevels_def)
  next
    case 7
    from least_pow2_Suc [OF this] 7 show ?thesis by (simp add: ai_loop_chain lapLevels_def)
  next
    case 8
    from least_pow2_ge [OF this] 8 show ?thesis by (simp add: ai_loop_chain lapLevels_def)
  qed
qed

lemma ai_loop_range: "0 \<le> sint (ai_loop o_d_p 1 0) \<and> sint (ai_loop o_d_p 1 0) < 8"
  by (simp add: ai_loop_chain)

text \<open>
  Claim C6. The constructor sets \<open>odp = 2 tan(fov/2 in radians) (180/pi)\<close> and the
  adaptation index to the least \<open>k\<close> with \<open>2^k > odp\<close>, capped at \<open>lapLevels - 1\<close>;
  the index is a valid pyramid level, \<open>0 \<le> ai < lapLevels\<close>.
\<close>

theorem NewPerceptual_ai:
  "odp (NewPerceptual g l f c nc) = 2 * tan ((f / 2) * (pi / 180)) * (180 / pi)
   \<and> unat (ai (NewPerceptual g l f c nc))
       = min (LEAST k. odp (NewPerceptual g l f c nc) < 2 ^ k) (lapLevels - 1)
   \<and> 0 \<le> sint (ai (NewPerceptual g l f c nc))
   \<and> sint (ai (NewPerceptual g l f c nc)) < int lapLevels"
  using ai_loop_range [of "odp (NewPerceptual g l f c nc)"]
  by (simp add: NewPerceptual_def Let_def ai_loop_least lapLevels_def)

subsection \<open>The pyramid levels\<close>

lemma conv_val_sep: "conv_val prev h w y x = sep_conv reflect prev h w y x"
  by (simp add: conv_val_def sep_conv_def algebra_simps)

lemma reflect_spec:
  "3 \<le> n \<Longrightarrow> 0 \<le> y \<Longrightarrow> y < n \<Longrightarrow> - 2 \<le> j \<Longrightarrow> j \<le> 2 \<Longrightarrow> reflect n (y + j) = spec_reflect n (y + j)"
  by (simp add: reflect_def spec_reflect_def Let_def)

lemma sep_conv_spec:
  assumes "3 \<le> h" "3 \<le> w" "0 \<le> y" "y < h" "0 \<le> x" "x < w"
  shows "sep_conv reflect prev h w y x = sep_conv spec_reflect prev h w y x"
proof -
  have ry: "reflect h (y + j) = spec_reflect h (y + j)" if "j \<in> set [-2, -1, 0, 1, 2]" for j
    using that assms by (intro reflect_spec) auto
  have rx: "reflect w (x + i) = spec_reflect w (x + i)" if "i \<in> set [-2, -1, 0, 1, 2]" for i
    using that assms by (intro reflect_spec) auto
  show ?thesis
    unfolding sep_conv_def
    by (intro arg_cong [where f = sum_list] map_cong refl arg_cong2 [where f = "(*)"])
      (simp only: ry rx)
qed

lemma levels_pure_all_rect: "list_all (rect h w) (levels_pure k h w prev)"
  by (induction k arbitrary: prev) (simp_all add: rect_conv_pure)

lemma conv_pure_nth:
  "y < h \<Longrightarrow> x < w \<Longrightarrow> conv_pure prev h w ! y ! x = conv_val prev (int h) (int w) (int y) (int x)"
  by (simp add: conv_pure_def)

text \<open>
  In a dimension of size 2 the two steps both apply to the index \<open>- 2\<close>: the
  code reads index 1, where the one-step wording gives 2, outside the buffer.
\<close>

lemma reflect_2_differs: "reflect 2 (0 + - 2) = 1 \<and> spec_reflect 2 (0 + - 2) = 2"
  by (simp add: reflect_def spec_reflect_def)

text \<open>
  On a map of \<open>h \<ge> 2\<close> rows and \<open>w \<ge> 2\<close> columns \<open>pyramid\<close> returns exactly
  \<open>lapLevels = 8\<close> levels, each of \<open>h\<close> rows and \<open>w\<close> columns; level 0 is the input, and
  every entry of level \<open>k + 1\<close> is the separable 5 by 5 convolution of level \<open>k\<close> with
  the kernel \<open>[0.05, 0.25, 0.4, 0.25, 0.05]\<close>, read at indices adjusted in two steps
  (\<open>reflect\<close>). When both dimensions are at least 3 the two steps never both apply.
\<close>

lemma pyramid_levels:
  assumes "rect h w m" "2 \<le> h" "2 \<le> w"
  shows "\<exists>p. pyramid m = Inr p \<and> length p = lapLevels \<and> list_all (rect h w) p \<and> p ! 0 = m
    \<and> (\<forall>k y x. k < lapLevels - 1 \<and> y < h \<and> x < w \<longrightarrow>
          p ! Suc k ! y ! x = sep_conv reflect (p ! k) (int h) (int w) (int y) (int x)
          \<and> (3 \<le> h \<and> 3 \<le> w \<longrightarrow>
               p ! Suc k ! y ! x = sep_conv spec_reflect (p ! k) (int h) (int w) (int y) (int x)))"
proof -
  let ?p = "m # levels_pure (lapLevels - 1) h w m"
  have p: "pyramid m = Inr ?p"
    using assms by (rule pyramid_ok)
  have len: "length ?p = lapLevels"
    by (simp add: lapLevels_def)
  have shape: "list_all (rect h w) ?p"
    using assms(1) by (simp add: levels_pure_all_rect)
  have step: "?p ! Suc k ! y ! x = sep_conv reflect (?p ! k) (int h) (int w) (int y) (int x)"
    if "k < lapLevels - 1" "y < h" "x < w" for k y x
    using that by (simp only: levels_pure_step conv_pure_nth conv_val_sep)
  have step': "?p ! Suc k ! y ! x = sep_conv spec_reflect (?p ! k) (int h) (int w) (int y) (int x)"
    if "k < lapLevels - 1" "y < h" "x < w" "3 \<le> h" "3 \<le> w" for k y x
    using that step [of k y x] by (simp add: sep_conv_spec)
  show ?thesis
    using p len shape step step' by (intro exI [of _ ?p]) simp
qed

lemma pyramid_levels_example:
  "\<exists>p. pyramid [[1, 2], [3, 4]] = Inr p \<and> length p = lapLevels \<and> p ! 0 = [[1, 2], [3, 4]]
      \<and> p ! Suc 0 ! 0 ! 0 = sep_conv reflect (p ! 0) 2 2 0 0"
proof -
  have "rect 2 2 [[1, 2], [3, 4 :: real]]"
    by (simp add: rect_def)
  from pyramid_levels [OF this] show ?thesis
    by (fastforce simp: lapLevels_def)
qed

text \<open>
  Claim C3. The claim is about every luminance map: \<open>pyramid\<close> is to return
  \<open>lapLevels\<close> levels of the size of the input, each the convolution of the one before
  with reflected indices. On the map of one row and one column the reflection leaves
  the buffer: the offset \<open>- 2\<close> at position 0 becomes 2, then \<open>2 * 1 - 2 - 1 = - 1\<close>, and
  the read at index \<open>- 1\<close> panics, so \<open>pyramid\<close> returns no level at all.
\<close>

theorem pyramid_1x1_panics: "pyramid [[1]] = Inl IndexOutOfRange"
  by (rule pyramid_panic [of 1 1]) (simp_all add: rect_def)

subsection \<open>Reads that succeed on well-shaped buffers\<close>

lemma at3_ok:
  "shaped h w lap \<Longrightarrow> l < lapLevels \<Longrightarrow> y < h \<Longrightarrow> x < w
    \<Longrightarrow> at3 lap (int l) (int y) (int x) = Inr (lap ! l ! y ! x)"
  by (simp add: at3_def shaped_def list_all_length at2_ok [of h w])

lemma contrast_at_ok:
  assumes "shaped h w aLap" "shaped h w bLap" "i < lapLevels - 2" "y < h" "x < w"
  shows "contrast_at aLap bLap (int i) (int y) (int x) = Inr (contrast_pure aLap bLap i y x)"
proof -
  have l: "i < lapLevels" "i + 1 < lapLevels" "i + 2 < lapLevels"
    using assms(3) by simp_all
  have i: "int i + 1 = int (i + 1)" "int i + 2 = int (i + 2)"
    by simp_all
  note a = at3_ok [OF assms(1) _ assms(4,5)] and b = at3_ok [OF assms(2) _ assms(4,5)]
  show ?thesis
    unfolding contrast_at_def i
    by (simp only: a [OF l(1)] a [OF l(2)] a [OF l(3)] b [OF l(1)] b [OF l(2)] b [OF l(3)]
        bind_Inr contrast_pure_def Let_def)
qed

lemma pixel_pass_ok:
  assumes "shaped h w aLap" "shaped h w bLap" "rect h w aLAB" "rect h w bLAB"
    and "0 \<le> sint (ai d)" "sint (ai d) < int lapLevels" "y < h" "x < w"
  shows "pixel_pass d cpd freq aLAB bLAB aLap bLap (int y) (int x) =
    Inr (pass_pure d cpd freq aLAB bLAB aLap bLap y x)"
proof -
  define k where "k = nat (sint (ai d))"
  have k: "sint (ai d) = int k" "k < lapLevels"
    using assms(5,6) by (simp_all add: k_def)
  have c: "sequence (map (\<lambda>i. contrast_at aLap bLap (int i) (int y) (int x)) [0..<lapLevels - 2]) =
      Inr (map (\<lambda>i. contrast_pure aLap bLap i y x) [0..<lapLevels - 2])"
    using assms by (intro sequence_Inr contrast_at_ok [of h w]) simp_all
  have z: "0 < lapLevels"
    by (simp add: lapLevels_def)
  have a0: "at3 aLap 0 (int y) (int x) = Inr (aLap ! 0 ! y ! x)"
    using at3_ok [OF assms(1) z assms(7,8)] by simp
  have b0: "at3 bLap 0 (int y) (int x) = Inr (bLap ! 0 ! y ! x)"
    using at3_ok [OF assms(2) z assms(7,8)] by simp
  have la: "at2 aLAB (int y) (int x) = Inr (aLAB ! y ! x)"
    using at2_ok [OF assms(3), of "int y" "int x"] assms(7,8) by simp
  have lb: "at2 bLAB (int y) (int x) = Inr (bLAB ! y ! x)"
    using at2_ok [OF assms(4), of "int y" "int x"] assms(7,8) by simp
  have kk: "nat (int k) = k" by simp
  show ?thesis
    unfolding pixel_pass_def pass_pure_def k(1) kk
    by (simp only: at3_ok [OF assms(1) k(2) assms(7,8)] at3_ok [OF assms(2) k(2) assms(7,8)]
        c a0 b0 la lb bind_Inr Let_def if_distrib [of Inr] if_True if_False)
qed

lemma sequence_Inr_length: "sequence ms = Inr vs \<Longrightarrow> length vs = length ms"
proof (induction ms arbitrary: vs)
  case Nil
  then show ?case by simp
next
  case (Cons m ms)
  then show ?case
    by (cases m; cases "sequence ms") auto
qed

lemma sequence_Inr_all:
  "sequence ms = Inr vs \<Longrightarrow> list_all2 (\<lambda>m v. m = Inr v) ms vs"
proof (induction ms arbitrary: vs)
  case Nil
  then show ?case by simp
next
  case (Cons m ms)
  then show ?case
    by (cases m; cases "sequence ms") auto
qed

lemma sequence_map_Inr_rect:
  assumes "sequence (map (\<lambda>y. sequence (map (g y) [0..<w])) [0..<h]) = Inr rows"
  shows "rect h w rows"
proof -
  from sequence_Inr_all [OF assms]
  have len: "length rows = h"
    and row: "\<And>y. y < h \<Longrightarrow> sequence (map (g y) [0..<w]) = Inr (rows ! y)"
    by (auto simp: list_all2_conv_all_nth)
  have "length (rows ! y) = w" if "y < h" for y
    using sequence_Inr_length [OF row [OF that]] by simp
  with len show ?thesis
    by (simp add: rect_def list_all_length)
qed

lemma conv_level_rect: "conv_level prev h w = Inr cur \<Longrightarrow> rect h w cur"
  unfolding conv_level_def by (rule sequence_map_Inr_rect)

lemma build_levels_shape:
  "build_levels k h w prev = Inr rest \<Longrightarrow> length rest = k \<and> list_all (rect h w) rest"
proof (induction k arbitrary: prev rest)
  case 0
  then show ?case by simp
next
  case (Suc k)
  from Suc.prems obtain cur rest' where
    c: "conv_level prev h w = Inr cur" and r: "build_levels k h w cur = Inr rest'"
    and e: "rest = cur # rest'"
    by (cases "conv_level prev h w"; cases "build_levels k h w (projr (conv_level prev h w))") auto
  from Suc.IH [OF r] conv_level_rect [OF c] e show ?case by simp
qed

lemma rect_map_copy_row: "rect (length m) w (map (copy_row w) m)"
  by (auto simp: rect_def list_all_iff copy_row_def)

lemma pyramid_shape:
  assumes "pyramid m = Inr p"
  shows "m \<noteq> [] \<and> shaped (length m) (length (hd m)) p"
proof -
  from assms have ne: "m \<noteq> []"
    by (auto simp: pyramid_def)
  from assms obtain rest where
    r: "build_levels (lapLevels - 1) (length m) (length (hd m)) (map (copy_row (length (hd m))) m) = Inr rest"
    and p: "p = map (copy_row (length (hd m))) m # rest"
    unfolding pyramid_unfold [OF ne]
    by (cases "build_levels (lapLevels - 1) (length m) (length (hd m)) (map (copy_row (length (hd m))) m)") auto
  from build_levels_shape [OF r] p ne show ?thesis
    by (simp add: shaped_def rect_map_copy_row lapLevels_def)
qed

subsection \<open>When the buffers of an image exist\<close>

lemma conv_level_w0: "conv_level prev h 0 = Inr (conv_pure prev h 0)"
  unfolding conv_level_def conv_pure_def
  by (rule sequence_Inr) simp

lemma build_levels_w0: "build_levels k h 0 prev = Inr (levels_pure k h 0 prev)"
  by (induction k arbitrary: prev) (simp_all add: conv_level_w0)

lemma pyramid_w0:
  assumes "rect h 0 m" "1 \<le> h"
  shows "pyramid m = Inr (m # levels_pure (lapLevels - 1) h 0 m)"
proof -
  from assms have ne: "m \<noteq> []" and h: "length m = h"
    by (auto simp: rect_def)
  then have "hd m \<in> set m" by simp
  with assms have w: "length (hd m) = 0"
    by (simp add: rect_def list_all_iff)
  show ?thesis
    using assms by (simp add: pyramid_unfold [OF ne] h w map_copy_row_rect build_levels_w0)
qed

lemma rect_tabulate: "rect h w (map (\<lambda>y. map (f y) [0..<w]) [0..<h])"
  by (simp add: rect_def list_all_iff)

lemma labLap_Inl_iff:
  "labLap m g l = Inl p \<longleftrightarrow> labLap_panic (Dx (Bounds m)) (Dy (Bounds m)) = Some p"
proof -
  define w h where "w = Dx (Bounds m)" and "h = Dy (Bounds m)"
  define aLum where "aLum = map (\<lambda>y. map (\<lambda>x. case xyz (At m (int x) (int y)) g of
      (cx, cy, cz) \<Rightarrow> cy * l) [0..<nat w]) [0..<nat h]"
  define aLAB where "aLAB = map (\<lambda>y. map (\<lambda>x. case xyz (At m (int x) (int y)) g of
      (cx, cy, cz) \<Rightarrow> lab cx cy cz) [0..<nat w]) [0..<nat h]"
  have eq: "labLap m g l =
      (if h < 0 \<or> (0 < h \<and> w < 0) then Inl MakeSliceLen
       else bind (pyramid aLum) (\<lambda>aLap. Inr (aLAB, aLap)))"
    by (simp add: labLap_def Let_def w_def h_def aLum_def aLAB_def)
  have lp: "labLap_panic (Dx (Bounds m)) (Dy (Bounds m)) = labLap_panic w h"
    by (simp add: w_def h_def)
  have r: "rect (nat h) (nat w) aLum"
    unfolding aLum_def by (rule rect_tabulate)
  consider "h < 0 \<or> (0 < h \<and> w < 0)" | "h = 0" | "1 \<le> h" "1 \<le> w" "h = 1 \<or> w = 1"
    | "1 \<le> h" "w = 0" | "2 \<le> h" "2 \<le> w"
    by linarith
  then show ?thesis
  proof cases
    case 1
    then show ?thesis
      unfolding eq lp by (auto simp: labLap_panic_def)
  next
    case 2
    then have "pyramid aLum = Inl IndexOutOfRange"
      by (simp add: aLum_def pyramid_empty)
    with 2 show ?thesis
      unfolding eq lp by (auto simp: labLap_panic_def)
  next
    case 3
    then have "pyramid aLum = Inl IndexOutOfRange"
      by (intro pyramid_panic [OF r]) auto
    with 3 show ?thesis
      unfolding eq lp by (auto simp: labLap_panic_def)
  next
    case 4
    with r have "pyramid aLum = Inr (aLum # levels_pure (lapLevels - 1) (nat h) 0 aLum)"
      by (intro pyramid_w0) auto
    with 4 show ?thesis
      unfolding eq lp by (auto simp: labLap_panic_def)
  next
    case 5
    with r have "pyramid aLum = Inr (aLum # levels_pure (lapLevels - 1) (nat h) (nat w) aLum)"
      by (intro pyramid_ok) auto
    with 5 show ?thesis
      unfolding eq lp by (auto simp: labLap_panic_def)
  qed
qed

lemma labLap_shape:
  assumes "labLap m g l = Inr (aLAB, aLap)"
  shows "rect (nat (Dy (Bounds m))) (nat (Dx (Bounds m))) aLAB
    \<and> shaped (nat (Dy (Bounds m))) (nat (Dx (Bounds m))) aLap"
proof -
  define w h where "w = Dx (Bounds m)" and "h = Dy (Bounds m)"
  define aLum where "aLum = map (\<lambda>y. map (\<lambda>x. case xyz (At m (int x) (int y)) g of
      (cx, cy, cz) \<Rightarrow> cy * l) [0..<nat w]) [0..<nat h]"
  from assms have p: "pyramid aLum = Inr aLap"
    and lab: "aLAB = map (\<lambda>y. map (\<lambda>x. case xyz (At m (int x) (int y)) g of
      (cx, cy, cz) \<Rightarrow> lab cx cy cz) [0..<nat w]) [0..<nat h]"
    by (auto simp: labLap_def Let_def w_def [symmetric] h_def [symmetric] aLum_def [symmetric]
        bind_def split: if_splits sum.splits)
  from pyramid_shape [OF p] have ne: "aLum \<noteq> []"
    and s: "shaped (length aLum) (length (hd aLum)) aLap"
    by simp_all
  from ne have h: "0 < nat h"
    by (auto simp: aLum_def)
  then have "hd aLum = map (\<lambda>x. case xyz (At m (int x) 0) g of (cx, cy, cz) \<Rightarrow> cy * l) [0..<nat w]"
    by (simp add: aLum_def hd_map upt_conv_Cons)
  then have "length (hd aLum) = nat w"
    by simp
  moreover have "length aLum = nat h"
    by (simp add: aLum_def)
  ultimately show ?thesis
    using s lab rect_tabulate by (simp add: w_def h_def)
qed

subsection \<open>A closed form of the comparison\<close>

lemma Compare_unfold:
  "Compare d a b =
     (if \<not> same_size a b then Inr (None, - 1, Some ErrSize)
      else bind (labLap a (gamma d) (lum d)) (\<lambda>(aLAB, aLap).
           bind (labLap b (gamma d) (lum d)) (\<lambda>(bLAB, bLap).
           bind (sequence (map (\<lambda>y. sequence (map (\<lambda>x.
                   pixel_pass d (cpd_of d (Dx (Bounds a))) (freq_of d (Dx (Bounds a)))
                     aLAB bLAB aLap bLap (int y) (int x))
                   [0..<nat (Dx (Bounds a))])) [0..<nat (Dy (Bounds a))]))
             (\<lambda>rows. Inr (result_of rows)))))"
  by (simp add: Compare_def Let_def same_size_def cpd_of_def freq_of_def result_of_def
      cong: if_cong)

lemma labLap_None:
  "labLap_panic (Dx (Bounds m)) (Dy (Bounds m)) = None
    \<Longrightarrow> labLap m (gamma d) (lum d) = Inr (LAB_of d m, Lap_of d m)"
  by (cases "labLap m (gamma d) (lum d)") (simp_all add: LAB_of_def Lap_of_def labLap_Inl_iff)

lemma rows_ok:
  assumes "shaped h w aLap" "shaped h w bLap" "rect h w aLAB" "rect h w bLAB" "valid_ai d"
  shows "sequence (map (\<lambda>y. sequence (map (\<lambda>x.
      pixel_pass d cpd freq aLAB bLAB aLap bLap (int y) (int x)) [0..<w])) [0..<h]) =
    Inr (map (\<lambda>y. map (\<lambda>x. pass_pure d cpd freq aLAB bLAB aLap bLap y x) [0..<w]) [0..<h])"
proof -
  have row: "sequence (map (\<lambda>x. pixel_pass d cpd freq aLAB bLAB aLap bLap (int y) (int x)) [0..<w]) =
      Inr (map (\<lambda>x. pass_pure d cpd freq aLAB bLAB aLap bLap y x) [0..<w])" if "y < h" for y
    using assms that unfolding valid_ai_def
    by (intro sequence_Inr pixel_pass_ok [of h w]) simp_all
  show ?thesis
    by (intro sequence_Inr row) simp
qed

lemma Compare_closed:
  assumes "valid_ai d"
  shows "Compare d a b =
     (if \<not> same_size a b then Inr (None, - 1, Some ErrSize)
      else case labLap_panic (Dx (Bounds a)) (Dy (Bounds a)) of
             Some p \<Rightarrow> Inl p
           | None \<Rightarrow> Inr (result_of (pass_rows d (Dx (Bounds a)) (Dy (Bounds a))
                          (LAB_of d a) (LAB_of d b) (Lap_of d a) (Lap_of d b))))"
proof (cases "same_size a b")
  case False
  then show ?thesis by (simp add: Compare_unfold)
next
  case True
  then have sz: "Dx (Bounds b) = Dx (Bounds a)" "Dy (Bounds b) = Dy (Bounds a)"
    by (simp_all add: same_size_def)
  show ?thesis
  proof (cases "labLap_panic (Dx (Bounds a)) (Dy (Bounds a))")
    case (Some p)
    then have "labLap a (gamma d) (lum d) = Inl p"
      by (simp add: labLap_Inl_iff)
    with True Some show ?thesis by (simp add: Compare_unfold)
  next
    case None
    then have a: "labLap a (gamma d) (lum d) = Inr (LAB_of d a, Lap_of d a)"
      by (rule labLap_None)
    from None have b: "labLap b (gamma d) (lum d) = Inr (LAB_of d b, Lap_of d b)"
      by (intro labLap_None) (simp add: sz)
    note sa = labLap_shape [OF a] and sb = labLap_shape [OF b, unfolded sz]
    have "sequence (map (\<lambda>y. sequence (map (\<lambda>x.
        pixel_pass d (cpd_of d (Dx (Bounds a))) (freq_of d (Dx (Bounds a)))
          (LAB_of d a) (LAB_of d b) (Lap_of d a) (Lap_of d b) (int y) (int x))
        [0..<nat (Dx (Bounds a))])) [0..<nat (Dy (Bounds a))]) =
      Inr (pass_rows d (Dx (Bounds a)) (Dy (Bounds a))
        (LAB_of d a) (LAB_of d b) (Lap_of d a) (Lap_of d b))"
      unfolding pass_rows_def using sa sb assms by (intro rows_ok) simp_all
    with True None show ?thesis
      by (simp add: Compare_unfold a b)
  qed
qed

subsection \<open>Size check and identical images\<close>

lemma factor_of_range: "1 \<le> factor_of cpd freq adapt contrast \<and> factor_of cpd freq adapt contrast \<le> 10"
  unfolding factor_of_def Let_def by (rule clamp_factor_range)

lemma Pow_pos: "0 < x \<Longrightarrow> 0 < Pow x y"
  by (simp add: Pow_def)

lemma tvi_pos: "0 < tvi al"
  unfolding tvi_def Let_def by (rule Pow_pos) simp

lemma valid_ai_NewPerceptual: "valid_ai (NewPerceptual g l f c nc)"
  using ai_loop_range [of "2 * tan (f * 0.5 * pi / 180) * 180 / pi"]
  by (simp add: valid_ai_def NewPerceptual_def Let_def lapLevels_def)

lemma blank_dims [simp]: "Dx (Bounds (blank w h)) = w" "Dy (Bounds (blank w h)) = h"
  by (simp_all add: blank_def Dx_def Dy_def)

lemma white_image_dims [simp]:
  "Dx (Bounds (white_image w h)) = w" "Dy (Bounds (white_image w h)) = h"
  by (simp_all add: white_image_def Dx_def Dy_def)

lemma Compare_size_mismatch:
  "\<not> same_size a b \<Longrightarrow> Compare d a b = Inr (None, - 1, Some ErrSize)"
  by (simp add: Compare_unfold)

lemma Compare_returns_iff:
  assumes "valid_ai d" "same_size a b"
  shows "(\<exists>img n. Compare d a b = Inr (Some img, n, None))
    \<longleftrightarrow> labLap_panic (Dx (Bounds a)) (Dy (Bounds a)) = None"
  using assms by (simp add: Compare_closed result_of_def split: option.split)

lemma labLap_panic_None_iff:
  "labLap_panic w h = None \<longleftrightarrow> (2 \<le> h \<and> 2 \<le> w) \<or> (1 \<le> h \<and> w = 0)"
  by (auto simp: labLap_panic_def)

text \<open>
  Claim C1. Images of different sizes give \<open>ErrSize\<close> and no image, whatever their
  contents (lemma \<open>Compare_size_mismatch\<close>; the check comes before \<open>labLap\<close>, which
  would panic on some of them). The claim also says that every pair of equal-sized
  images gives no error. A black and a white image of one pixel each are equal-sized,
  and the comparison does not return at all: the convolution reads index \<open>- 1\<close>.
\<close>

theorem Compare_equal_size_panics:
  "same_size (blank 1 1) (white_image 1 1)
   \<and> Compare NewDefaultPerceptual (blank 1 1) (white_image 1 1) = Inl IndexOutOfRange"
  by (simp add: Compare_closed valid_ai_NewPerceptual NewDefaultPerceptual_def same_size_def
      labLap_panic_def)

theorem Compare_equal_size_panics_witness:
  "\<exists>p. Compare NewDefaultPerceptual (blank 1 1) (white_image 1 1) = Inl p"
  using Compare_equal_size_panics by blast

lemma pass_pure_same: "pass_pure d cpd freq aLAB aLAB aLap aLap y x"
proof -
  define adapt where
    "adapt = adapt_of (aLap ! nat (sint (ai d)) ! y ! x) (aLap ! nat (sint (ai d)) ! y ! x)"
  define factor where
    "factor = factor_of cpd freq adapt (map (\<lambda>i. contrast_pure aLap aLap i y x) [0..<lapLevels - 2])"
  have f: "1 \<le> factor"
    unfolding factor_def using factor_of_range by blast
  then have "0 < factor * tvi adapt"
    using tvi_pos [of adapt] by (intro mult_pos_pos) simp_all
  with f show ?thesis
    by (simp add: pass_pure_def Let_def adapt_def [symmetric] factor_def [symmetric])
qed

lemma pass_rows_same:
  "pass_rows d w h aLAB aLAB aLap aLap = replicate (nat h) (replicate (nat w) True)"
  by (simp add: pass_rows_def pass_pure_same map_replicate_const)

lemma result_of_all_pass:
  "result_of (replicate h (replicate w True)) =
     (Some (replicate h (replicate w (NRGBA 0 0 0 0xff))), 0, None)"
  by (simp add: result_of_def render_def)

lemma Compare_identity:
  assumes "valid_ai d" "labLap_panic (Dx (Bounds a)) (Dy (Bounds a)) = None"
  shows "Compare d a a =
    Inr (Some (replicate (nat (Dy (Bounds a))) (replicate (nat (Dx (Bounds a))) (NRGBA 0 0 0 0xff))),
         0, None)"
  using assms by (simp add: Compare_closed same_size_def pass_rows_same result_of_all_pass)

text \<open>
  Claim C2. An image compared with itself gives count 0 and an all-pass image whenever
  the comparison returns (lemma \<open>Compare_identity\<close>), which it does when both dimensions
  are at least 2. For the image of one pixel, under every configuration, the comparison
  panics instead of returning the count 0 and one pass pixel.
\<close>

theorem Compare_identity_panics:
  "Compare (NewPerceptual g l f c nc) (blank 1 1) (blank 1 1) = Inl IndexOutOfRange"
  by (simp add: Compare_closed valid_ai_NewPerceptual same_size_def labLap_panic_def)

theorem Compare_identity_panics_witness:
  "Compare NewDefaultPerceptual (blank 1 1) (blank 1 1) \<noteq> Inr (Some [[NRGBA 0 0 0 0xff]], 0, None)"
  unfolding NewDefaultPerceptual_def by (simp add: Compare_identity_panics)

subsection \<open>Symmetry\<close>

lemma adapt_of_commute: "adapt_of u v = adapt_of v u"
  by (simp add: adapt_of_def add.commute)

lemma contrast_pure_commute: "contrast_pure aLap bLap i y x = contrast_pure bLap aLap i y x"
  by (simp add: contrast_pure_def max.commute)

lemma pass_pure_commute:
  "pass_pure d cpd freq aLAB bLAB aLap bLap y x = pass_pure d cpd freq bLAB aLAB bLap aLap y x"
proof -
  have sq: "(u - v) * (u - v) = (v - u) * (v - u)" for u v :: real
    by (simp add: algebra_simps)
  have ab: "\<bar>u - v\<bar> = \<bar>v - u\<bar>" for u v :: real
    by (rule abs_minus_commute)
  show ?thesis
    unfolding pass_pure_def Let_def
    by (simp only: contrast_pure_commute [of aLap bLap]
        adapt_of_commute [of "aLap ! nat (sint (ai d)) ! y ! x"]
        sq [of "lab_a (aLAB ! y ! x)"] sq [of "lab_b (aLAB ! y ! x)"] ab [of "aLap ! 0 ! y ! x"])
qed

lemma pass_rows_commute:
  "pass_rows d w h aLAB bLAB aLap bLap = pass_rows d w h bLAB aLAB bLap aLap"
  unfolding pass_rows_def by (intro map_cong refl pass_pure_commute)

lemma same_size_commute: "same_size a b = same_size b a"
  by (auto simp: same_size_def)

lemma Compare_commute: "valid_ai d \<Longrightarrow> Compare d a b = Compare d b a"
proof (cases "same_size a b")
  case False
  then show ?thesis
    by (simp add: Compare_size_mismatch same_size_commute [of b a])
next
  case True
  assume v: "valid_ai d"
  from True have sz: "Dx (Bounds b) = Dx (Bounds a)" "Dy (Bounds b) = Dy (Bounds a)"
    by (simp_all add: same_size_def)
  from True have "same_size b a"
    by (simp add: same_size_commute)
  with True show ?thesis
    unfolding Compare_closed [OF v] sz
    by (simp only: pass_rows_commute [of _ _ _ "LAB_of d a"])
qed

text \<open>
  Claim C4. Under every configuration built by \<open>NewPerceptual\<close>, comparing \<open>a\<close> with
  \<open>b\<close> and \<open>b\<close> with \<open>a\<close> has the same outcome, hence the same count of differing
  pixels: every formula of a pixel is symmetric in the two images (sum, maximum,
  absolute difference, squared difference).
\<close>

theorem Compare_symmetric:
  "Compare (NewPerceptual g l f c nc) a b = Compare (NewPerceptual g l f c nc) b a"
  by (rule Compare_commute) (rule valid_ai_NewPerceptual)

theorem Compare_symmetric_witness:
  "Compare NewDefaultPerceptual (blank 2 2) (white_image 2 2)
     = Compare NewDefaultPerceptual (white_image 2 2) (blank 2 2)
   \<and> (\<exists>img n. Compare NewDefaultPerceptual (blank 2 2) (white_image 2 2) = Inr (Some img, n, None))"
proof -
  have "\<exists>img n. Compare NewDefaultPerceptual (blank 2 2) (white_image 2 2) = Inr (Some img, n, None)"
    unfolding NewDefaultPerceptual_def
    by (subst Compare_returns_iff)
      (simp_all add: valid_ai_NewPerceptual same_size_def labLap_panic_def)
  then show ?thesis
    unfolding NewDefaultPerceptual_def using Compare_symmetric by blast
qed

subsection \<open>The chrominance test only adds failures\<close>

lemma result_of_failures: "result_of rows = (Some (map (map render) rows), int (failures rows), None)"
  by (simp add: result_of_def failures_def)

lemma filter_length_mono:
  "(\<And>x. x \<in> set xs \<Longrightarrow> P x \<Longrightarrow> Q x) \<Longrightarrow> length (filter P xs) \<le> length (filter Q xs)"
  by (induction xs) auto

lemma failures_tabulate:
  "failures (map (\<lambda>y. map (\<lambda>x. P y x) xs) ys) =
     length (filter (\<lambda>(y, x). \<not> P y x) (List.product ys xs))"
proof -
  have "concat (map (\<lambda>y. map (\<lambda>x. P y x) xs) ys) = map (\<lambda>(y, x). P y x) (List.product ys xs)"
    by (induction ys) simp_all
  then show ?thesis
    by (simp add: failures_def filter_map comp_def case_prod_unfold)
qed

lemma failures_mono:
  assumes "\<And>y x. P y x \<Longrightarrow> Q y x"
  shows "failures (map (\<lambda>y. map (\<lambda>x. Q y x) xs) ys) \<le> failures (map (\<lambda>y. map (\<lambda>x. P y x) xs) ys)"
  unfolding failures_tabulate using assms by (intro filter_length_mono) auto

lemma pass_pure_nocolor:
  assumes "ai d' = ai d" "nocolor d'" "pass_pure d cpd freq aLAB bLAB aLap bLap y x"
  shows "pass_pure d' cpd freq aLAB bLAB aLap bLap y x"
  using assms by (simp add: pass_pure_def Let_def split: if_splits)

lemma NewPerceptual_fields [simp]:
  "gamma (NewPerceptual g l f c nc) = g" "lum (NewPerceptual g l f c nc) = l"
  "nocolor (NewPerceptual g l f c nc) = nc" "cf (NewPerceptual g l f c nc) = c"
  "fov (NewPerceptual g l f c nc) = f"
  by (simp_all add: NewPerceptual_def Let_def)

lemma NewPerceptual_derived:
  "odp (NewPerceptual g l f c nc) = odp (NewPerceptual g l f c' nc')"
  "ai (NewPerceptual g l f c nc) = ai (NewPerceptual g l f c' nc')"
  by (simp_all add: NewPerceptual_def Let_def)

lemma NewPerceptual_buffers:
  "LAB_of (NewPerceptual g l f c nc) m = LAB_of (NewPerceptual g l f c' nc') m"
  "Lap_of (NewPerceptual g l f c nc) m = Lap_of (NewPerceptual g l f c' nc') m"
  "cpd_of (NewPerceptual g l f c nc) w = cpd_of (NewPerceptual g l f c' nc') w"
  "freq_of (NewPerceptual g l f c nc) w = freq_of (NewPerceptual g l f c' nc') w"
  by (simp_all add: LAB_of_def Lap_of_def cpd_of_def freq_of_def
      NewPerceptual_derived(1) [of g l f c nc c' nc'])

text \<open>
  Claim C8. For a fixed gamma, luminance factor, field of view and color factor and a
  fixed pair of images, the count of the comparison with the chrominance test disabled
  (\<open>nocolor = True\<close>) is at most the count with the test enabled (\<open>nocolor = False\<close>).
\<close>

theorem Compare_color_monotone:
  "count_le (Compare (NewPerceptual g l f c True) a b) (Compare (NewPerceptual g l f c False) a b)"
proof -
  let ?d1 = "NewPerceptual g l f c True" and ?d0 = "NewPerceptual g l f c False"
  let ?w = "Dx (Bounds a)" and ?h = "Dy (Bounds a)"
  have "failures (pass_rows ?d1 ?w ?h (LAB_of ?d1 a) (LAB_of ?d1 b) (Lap_of ?d1 a) (Lap_of ?d1 b))
      \<le> failures (pass_rows ?d0 ?w ?h (LAB_of ?d0 a) (LAB_of ?d0 b) (Lap_of ?d0 a) (Lap_of ?d0 b))"
    unfolding pass_rows_def NewPerceptual_buffers [of g l f c True _ c False]
    by (rule failures_mono) (rule pass_pure_nocolor, simp_all add: NewPerceptual_derived(2) [of g l f c True c False])
  then show ?thesis
    by (simp add: Compare_closed valid_ai_NewPerceptual result_of_failures split: option.split)
qed

theorem Compare_color_monotone_witness:
  "count_le (Compare (NewPerceptual 2.2 100 45 1 True) (blank 2 2) (white_image 2 2))
     (Compare (NewPerceptual 2.2 100 45 1 False) (blank 2 2) (white_image 2 2))
   \<and> (\<exists>img n. Compare (NewPerceptual 2.2 100 45 1 False) (blank 2 2) (white_image 2 2)
         = Inr (Some img, n, None))"
proof -
  have "\<exists>img n. Compare (NewPerceptual 2.2 100 45 1 False) (blank 2 2) (white_image 2 2)
      = Inr (Some img, n, None)"
    by (subst Compare_returns_iff)
      (simp_all add: valid_ai_NewPerceptual same_size_def labLap_panic_def)
  then show ?thesis
    using Compare_color_monotone by blast
qed

subsection \<open>No chrominance test in the dark\<close>

lemma scotopic_iff:
  "scotopic d a b \<longleftrightarrow>
     same_size a b \<and> labLap_panic (Dx (Bounds a)) (Dy (Bounds a)) = None \<and>
     list_all (\<lambda>y. list_all (\<lambda>x.
         adapt_of (Lap_of d a ! nat (sint (ai d)) ! y ! x) (Lap_of d b ! nat (sint (ai d)) ! y ! x) < 10)
       [0..<nat (Dx (Bounds a))]) [0..<nat (Dy (Bounds a))]"
proof (cases "same_size a b")
  case False
  then show ?thesis by (simp add: scotopic_def)
next
  case True
  then have sz: "Dx (Bounds b) = Dx (Bounds a)" "Dy (Bounds b) = Dy (Bounds a)"
    by (simp_all add: same_size_def)
  show ?thesis
  proof (cases "labLap_panic (Dx (Bounds a)) (Dy (Bounds a))")
    case (Some p)
    then have "labLap a (gamma d) (lum d) = Inl p"
      by (simp add: labLap_Inl_iff)
    with Some show ?thesis by (simp add: scotopic_def)
  next
    case None
    then have a: "labLap a (gamma d) (lum d) = Inr (LAB_of d a, Lap_of d a)"
      by (rule labLap_None)
    from None have b: "labLap b (gamma d) (lum d) = Inr (LAB_of d b, Lap_of d b)"
      by (intro labLap_None) (simp add: sz)
    from True None show ?thesis
      by (simp add: scotopic_def a b)
  qed
qed

lemma pass_pure_scotopic:
  assumes "adapt_of (aLap ! nat (sint (ai d)) ! y ! x) (bLap ! nat (sint (ai d)) ! y ! x) < 10"
    and "ai d' = ai d"
  shows "pass_pure d cpd freq aLAB bLAB aLap bLap y x = pass_pure d' cpd freq aLAB bLAB aLap bLap y x"
proof -
  define adapt where
    "adapt = adapt_of (aLap ! nat (sint (ai d)) ! y ! x) (bLap ! nat (sint (ai d)) ! y ! x)"
  define factor where
    "factor = factor_of cpd freq adapt (map (\<lambda>i. contrast_pure aLap bLap i y x) [0..<lapLevels - 2])"
  have f: "1 \<le> factor"
    unfolding factor_def using factor_of_range by blast
  from assms(1) have lt: "adapt < 10"
    by (simp add: adapt_def)
  show ?thesis
    using f lt
    by (simp add: pass_pure_def Let_def assms(2) adapt_def [symmetric] factor_def [symmetric])
qed

lemma pass_rows_scotopic:
  assumes "list_all (\<lambda>y. list_all (\<lambda>x.
         adapt_of (aLap ! nat (sint (ai d)) ! y ! x) (bLap ! nat (sint (ai d)) ! y ! x) < 10)
       [0..<nat w]) [0..<nat h]"
    and "ai d' = ai d" "cpd_of d' w = cpd_of d w" "freq_of d' w = freq_of d w"
  shows "pass_rows d w h aLAB bLAB aLap bLap = pass_rows d' w h aLAB bLAB aLap bLap"
  unfolding pass_rows_def assms(3,4)
  using assms(1) by (intro map_cong refl pass_pure_scotopic assms(2)) (simp add: list_all_iff)

text \<open>
  Claim C7. For equal-sized images whose shared adaptation luminance is below 10 at
  every pixel, the comparison returns, and its image and count are the same for any
  two values of the color factor; they are also those of the comparison without the
  chrominance test, so no pixel fails by its chrominance.
\<close>

theorem Compare_scotopic:
  assumes "scotopic (NewPerceptual g l f c1 nc) a b"
  shows "Compare (NewPerceptual g l f c1 nc) a b = Compare (NewPerceptual g l f c2 nc) a b
    \<and> Compare (NewPerceptual g l f c1 nc) a b = Compare (NewPerceptual g l f c1 True) a b
    \<and> (\<exists>img n. Compare (NewPerceptual g l f c1 nc) a b = Inr (Some img, n, None))"
proof -
  let ?d = "NewPerceptual g l f c1 nc"
  from assms have sz: "same_size a b"
    and ok: "labLap_panic (Dx (Bounds a)) (Dy (Bounds a)) = None"
    and dark: "list_all (\<lambda>y. list_all (\<lambda>x.
         adapt_of (Lap_of ?d a ! nat (sint (ai ?d)) ! y ! x) (Lap_of ?d b ! nat (sint (ai ?d)) ! y ! x) < 10)
       [0..<nat (Dx (Bounds a))]) [0..<nat (Dy (Bounds a))]"
    by (simp_all add: scotopic_iff)
  have rows: "pass_rows ?d (Dx (Bounds a)) (Dy (Bounds a)) (LAB_of ?d a) (LAB_of ?d b) (Lap_of ?d a) (Lap_of ?d b)
      = pass_rows (NewPerceptual g l f c' nc') (Dx (Bounds a)) (Dy (Bounds a))
          (LAB_of ?d a) (LAB_of ?d b) (Lap_of ?d a) (Lap_of ?d b)" for c' nc'
    using dark
    by (rule pass_rows_scotopic)
      (simp_all add: NewPerceptual_derived(2) [of g l f c' nc' c1 nc]
        NewPerceptual_buffers(3,4) [of g l f c' nc' _ c1 nc])
  have eq: "Compare ?d a b = Compare (NewPerceptual g l f c' nc') a b" for c' nc'
    unfolding Compare_closed [OF valid_ai_NewPerceptual]
      NewPerceptual_buffers(1,2) [of g l f c' nc' _ c1 nc]
    by (simp only: rows [of c' nc'])
  have "\<exists>img n. Compare ?d a b = Inr (Some img, n, None)"
    using sz ok by (simp add: Compare_returns_iff valid_ai_NewPerceptual)
  with eq [of c2 nc] eq [of c1 True] show ?thesis
    by simp
qed

lemma kernel_sum:
  "(\<Sum>i\<leftarrow>[-2, -1, 0, 1, 2]. \<Sum>j\<leftarrow>[-2, -1, 0, 1, 2].
      lapKernel ! nat (i + 2) * lapKernel ! nat (j + 2) * c) = (c :: real)"
  by (simp add: lapKernel_def algebra_simps)

lemma conv_val_const:
  assumes "2 \<le> h" "2 \<le> w" "y < h" "x < w"
  shows "conv_val (replicate h (replicate w c)) (int h) (int w) (int y) (int x) = c"
proof -
  have e: "replicate h (replicate w c) ! nat (reflect (int h) (int y + j))
      ! nat (reflect (int w) (int x + i)) = c"
    if "j \<in> set [-2, -1, 0, 1, 2]" "i \<in> set [-2, -1, 0, 1, 2]" for i j :: int
  proof -
    have "0 \<le> reflect (int h) (int y + j)" "reflect (int h) (int y + j) < int h"
      using assms that by (auto intro!: reflect_lower reflect_upper)
    moreover have "0 \<le> reflect (int w) (int x + i)" "reflect (int w) (int x + i) < int w"
      using assms that by (auto intro!: reflect_lower reflect_upper)
    ultimately show ?thesis by simp
  qed
  have "conv_val (replicate h (replicate w c)) (int h) (int w) (int y) (int x) =
      (\<Sum>i\<leftarrow>[-2, -1, 0, 1, 2]. \<Sum>j\<leftarrow>[-2, -1, 0, 1, 2].
        lapKernel ! nat (i + 2) * lapKernel ! nat (j + 2) * c)"
    unfolding conv_val_def
    by (intro arg_cong [where f = sum_list] map_cong refl arg_cong2 [where f = "(*)"] e)
  then show ?thesis
    by (simp only: kernel_sum)
qed

lemma conv_pure_const:
  assumes "2 \<le> h" "2 \<le> w"
  shows "conv_pure (replicate h (replicate w c)) h w = replicate h (replicate w c)"
proof -
  have "conv_pure (replicate h (replicate w c)) h w = map (\<lambda>y. map (\<lambda>x. c) [0..<w]) [0..<h]"
    unfolding conv_pure_def using assms
    by (intro map_cong refl conv_val_const) simp_all
  then show ?thesis
    by (simp add: map_replicate_const)
qed

lemma levels_pure_const:
  "2 \<le> h \<Longrightarrow> 2 \<le> w \<Longrightarrow>
    levels_pure k h w (replicate h (replicate w c)) = replicate k (replicate h (replicate w c))"
  by (induction k) (simp_all add: conv_pure_const)

lemma Lap_of_uniform:
  assumes "At m = (\<lambda>x y. c0)" "2 \<le> Dx (Bounds m)" "2 \<le> Dy (Bounds m)"
  shows "Lap_of d m = replicate lapLevels (replicate (nat (Dy (Bounds m)))
    (replicate (nat (Dx (Bounds m))) (fst (snd (xyz c0 (gamma d))) * lum d)))"
proof -
  let ?v = "fst (snd (xyz c0 (gamma d))) * lum d"
  let ?h = "nat (Dy (Bounds m))" and ?w = "nat (Dx (Bounds m))"
  have aLum: "map (\<lambda>y. map (\<lambda>x. case xyz (At m (int x) (int y)) (gamma d) of
      (cx, cy, cz) \<Rightarrow> cy * lum d) [0..<?w]) [0..<?h] = replicate ?h (replicate ?w ?v)"
    by (simp add: assms(1) map_replicate_const case_prod_unfold)
  have h: "2 \<le> ?h" and w: "2 \<le> ?w"
    using assms(2,3) by simp_all
  have rep: "replicate lapLevels X = X # replicate (lapLevels - 1) X" for X :: "real list list"
  proof -
    have "lapLevels = Suc (lapLevels - 1)"
      by (simp add: lapLevels_def)
    then show ?thesis
      by (metis replicate_Suc)
  qed
  have "pyramid (replicate ?h (replicate ?w ?v)) =
      Inr (replicate ?h (replicate ?w ?v) # levels_pure (lapLevels - 1) ?h ?w (replicate ?h (replicate ?w ?v)))"
    using h w by (intro pyramid_ok) (simp_all add: rect_def list_all_iff)
  then have "pyramid (replicate ?h (replicate ?w ?v)) = Inr (replicate lapLevels (replicate ?h (replicate ?w ?v)))"
    by (simp only: levels_pure_const [OF h w] rep)
  then show ?thesis
    using assms(2,3) by (simp add: Lap_of_def labLap_def Let_def aLum)
qed

lemma blue_image_simps [simp]:
  "Dx (Bounds (blue_image w h)) = w" "Dy (Bounds (blue_image w h)) = h"
  "At (blue_image w h) = (\<lambda>x y. RGBA 0 0 0xffff 0xffff)"
  by (simp_all add: blue_image_def Dx_def Dy_def)

lemma blank_At [simp]: "At (blank w h) = (\<lambda>x y. RGBA 0 0 0 0)"
  by (simp add: blank_def)

lemma scotopic_blank_blue: "scotopic (NewPerceptual 2.2 100 45 c nc) (blank 2 2) (blue_image 2 2)"
proof -
  let ?d = "NewPerceptual 2.2 100 45 c nc"
  have k: "nat (sint (ai ?d)) < lapLevels"
    using valid_ai_NewPerceptual [of "2.2" 100 45 c nc] unfolding valid_ai_def by linarith
  have a: "Lap_of ?d (blank 2 2) = replicate lapLevels (replicate 2 (replicate 2 0))"
    by (subst Lap_of_uniform [where ?c0.0 = "RGBA 0 0 0 0"]) (simp_all add: xyz_def Pow_def)
  have b: "Lap_of ?d (blue_image 2 2) = replicate lapLevels (replicate 2 (replicate 2 7.52847))"
    by (subst Lap_of_uniform [where ?c0.0 = "RGBA 0 0 0xffff 0xffff"]) (simp_all add: xyz_def Pow_def)
  show ?thesis
    unfolding scotopic_iff a b using k
    by (simp add: same_size_def labLap_panic_def list_all_iff adapt_of_def)
qed

theorem Compare_scotopic_witness:
  "Compare (NewPerceptual 2.2 100 45 1 False) (blank 2 2) (blue_image 2 2)
     = Compare (NewPerceptual 2.2 100 45 5 False) (blank 2 2) (blue_image 2 2)
   \<and> (\<exists>img n. Compare (NewPerceptual 2.2 100 45 1 False) (blank 2 2) (blue_image 2 2)
          = Inr (Some img, n, None))"
  using Compare_scotopic [OF scotopic_blank_blue, of 1 False 5] by blast

subsection \<open>The clamp of the elevation factor and NaN\<close>

lemma fmul_NaN [simp]: "fmul a NaN = NaN" "fmul NaN b = NaN"
  by (cases a; simp) simp

lemma fdiv_NaN [simp]: "fdiv a NaN = NaN" "fdiv NaN b = NaN"
  by (cases a; simp) simp

lemma fadd_NaN [simp]: "fadd a NaN = NaN" "fadd NaN b = NaN"
  by (cases a; simp) simp

lemma flt_NaN [simp]: "\<not> flt a NaN" "\<not> flt NaN b"
  by (cases a; simp) simp

lemma clampF_NaN: "clampF NaN = NaN"
  by (simp add: clampF_def fgt_def)

lemma clampF_within: "inside 1 10 (clampF f) \<longleftrightarrow> f \<noteq> NaN"
  by (cases f) (auto simp: clampF_def fgt_def)

lemma clampF_Fin: "clampF (Fin x) = Fin (clamp_factor x)"
  by (simp add: clampF_def fgt_def clamp_factor_def)

lemma fpow_pos: "0 < b \<Longrightarrow> y \<noteq> 0 \<Longrightarrow> fpow (Fin b) y = Fin (Pow b y)"
  by (simp add: fpow_def Pow_def)

lemma csfF_finite:
  assumes "0 < lm"
    and "\<bar>0.3 * Pow (1 + 100 / lm) 0.15 * cpd\<bar> \<le> 709.782712893383973096"
  shows "csfF (Fin cpd) (Fin lm) = Fin (csf cpd lm)"
proof -
  define aa where "aa = 440 * Pow (1 + 0.7 / lm) (- 0.2)"
  define bb where "bb = 0.3 * Pow (1 + 100 / lm) 0.15"
  have nz: "lm \<noteq> 0"
    using assms(1) by simp
  have "fpow (Fin (1 + 0.7 / lm)) (- 0.2) = Fin (Pow (1 + 0.7 / lm) (- 0.2))"
    using assms(1) by (intro fpow_pos) (simp_all add: add_pos_nonneg)
  then have a: "fmul (Fin 440) (fpow (fadd (Fin 1) (fdiv (Fin 0.7) (Fin lm))) (- 0.2)) = Fin aa"
    using nz by (simp add: aa_def)
  have "fpow (Fin (1 + 100 / lm)) 0.15 = Fin (Pow (1 + 100 / lm) 0.15)"
    using assms(1) by (intro fpow_pos) (simp_all add: add_pos_nonneg)
  then have b: "fmul (Fin 0.3) (fpow (fadd (Fin 1) (fdiv (Fin 100) (Fin lm))) 0.15) = Fin bb"
    using nz by (simp add: bb_def)
  have r: "\<bar>bb * cpd\<bar> \<le> 709.782712893383973096"
    using assms(2) by (simp add: bb_def)
  have lo: "\<not> - bb * cpd < - 745.133219101941108420" and hi: "\<not> bb * cpd > 709.782712893383973096"
    using r by linarith+
  have e1: "fexp (fmul (fneg (Fin bb)) (Fin cpd)) = Fin (exp (- bb * cpd))"
  proof -
    have "\<not> - bb * cpd > 709.782712893383973096"
      using r by linarith
    with lo show ?thesis
      by (simp del: mult_minus_left)
  qed
  have e2: "fexp (fmul (Fin bb) (Fin cpd)) = Fin (exp (bb * cpd))"
  proof -
    have "\<not> bb * cpd < - 745.133219101941108420"
      using r by linarith
    with hi show ?thesis
      by simp
  qed
  have s: "\<not> 1 + 0.06 * exp (bb * cpd) < 0"
    by (simp add: not_less add_nonneg_nonneg)
  have "csfF (Fin cpd) (Fin lm) = Fin (aa * cpd * exp (- bb * cpd) * sqrt (1 + 0.06 * exp (bb * cpd)))"
    unfolding csfF_def Let_def a b e1 e2 using s by simp
  then show ?thesis
    by (simp add: csf_def Let_def aa_def bb_def)
qed

lemma csfF_NaN:
  assumes "0 < lm" "750 \<le> 0.3 * (1 + 100 / lm) powr 0.15 * c"
  shows "csfF (Fin c) (Fin lm) = NaN"
proof -
  define bb :: real where "bb = 0.3 * (1 + 100 / lm) powr 0.15"
  define aa :: real where "aa = 440 * (1 + 0.7 / lm) powr (- 0.2)"
  have nz: "lm \<noteq> 0"
    using assms(1) by simp
  have big: "750 \<le> bb * c"
    using assms(2) by (simp add: bb_def)
  have "fpow (Fin (1 + 0.7 / lm)) (- 0.2) = Fin (Pow (1 + 0.7 / lm) (- 0.2))"
    using assms(1) by (intro fpow_pos) (simp_all add: add_pos_nonneg)
  then have a: "fmul (Fin 440) (fpow (fadd (Fin 1) (fdiv (Fin 0.7) (Fin lm))) (- 0.2)) = Fin aa"
    using nz by (simp add: aa_def Pow_def)
  have "fpow (Fin (1 + 100 / lm)) 0.15 = Fin (Pow (1 + 100 / lm) 0.15)"
    using assms(1) by (intro fpow_pos) (simp_all add: add_pos_nonneg)
  then have bv: "fmul (Fin 0.3) (fpow (fadd (Fin 1) (fdiv (Fin 100) (Fin lm))) 0.15) = Fin bb"
    using nz by (simp add: bb_def Pow_def)
  have under: "fexp (fmul (fneg (Fin bb)) (Fin c)) = Fin 0"
    using big by simp
  have over: "fexp (fmul (Fin bb) (Fin c)) = PInf"
    using big by simp
  show ?thesis
    unfolding csfF_def Let_def a bv under over by simp
qed

lemma csfF_NaN_large:
  assumes "0 < lm" "2500 \<le> c"
  shows "csfF (Fin c) (Fin lm) = NaN"
proof (rule csfF_NaN [OF assms(1)])
  have "1 \<le> 1 + 100 / lm"
    using assms(1) by simp
  then have "1 \<le> (1 + 100 / lm) powr 0.15"
    by (rule ge_one_powr_ge_zero) simp
  then have "0.3 * c \<le> 0.3 * (1 + 100 / lm) powr 0.15 * c"
    using assms(2) by (intro mult_right_mono) simp_all
  moreover have "750 \<le> 0.3 * c"
    using assms(2) by simp
  ultimately show "750 \<le> 0.3 * (1 + 100 / lm) powr 0.15 * c"
    by linarith
qed

lemma powr_dark: "(10::real) \<le> (1 + 100 / 0.00001) powr 0.15"
proof -
  have "(10::real) = (10 powr 7) powr (1 / 7)"
    by (simp add: powr_powr)
  also have "\<dots> \<le> (10 powr 7) powr 0.15"
    by (rule powr_mono) simp_all
  also have "\<dots> \<le> (1 + 100 / 0.00001) powr 0.15"
    by (rule powr_mono2) simp_all
  finally show ?thesis .
qed

lemma csfF_NaN_dark:
  assumes "250 \<le> c"
  shows "csfF (Fin c) (Fin 0.00001) = NaN"
proof (rule csfF_NaN)
  have "0.3 * 10 * c \<le> 0.3 * (1 + 100 / 0.00001) powr 0.15 * c"
    using powr_dark assms by (intro mult_right_mono mult_left_mono) simp_all
  moreover have "750 \<le> 0.3 * 10 * c"
    using assms by simp
  ultimately show "750 \<le> 0.3 * (1 + 100 / 0.00001) powr 0.15 * c"
    by linarith
qed simp

lemma halvesF_first: "0 < n \<Longrightarrow> halvesF n c ! 0 = c"
  by (cases n) simp_all

lemma cpdF_first: "o_d_p \<noteq> 0 \<Longrightarrow> cpdF w (Fin o_d_p) ! 0 = Fin (0.5 * real_of_int w / o_d_p)"
  by (simp add: cpdF_def halvesF_first lapLevels_def)

lemma freqF_first: "freqF cpd ! 0 = fdiv (csfF (Fin 3.248) (Fin 100)) (csfF (cpd ! 0) (Fin 100))"
  by (simp add: freqF_def lapLevels_def)

lemma foldl_fadd_NaN: "foldl (\<lambda>f i. fadd f (g i)) NaN xs = NaN"
  by (induction xs) simp_all

lemma factorF_NaN:
  assumes "freq ! 0 = NaN"
  shows "factorF contrast freq masks contrastSum = NaN"
proof -
  have "[0..<lapLevels - 2] = 0 # [1..<lapLevels - 2]"
    by (simp add: lapLevels_def upt_conv_Cons)
  then show ?thesis
    by (simp add: factorF_def assms foldl_fadd_NaN clampF_NaN)
qed

lemma foldl_fadd_Fin:
  assumes "\<And>i. i \<in> set xs \<Longrightarrow> i < length c \<and> i < length f \<and> i < length m" "s \<noteq> 0"
  shows "foldl (\<lambda>a i. fadd a (fdiv (fmul (fmul (map Fin c ! i) (map Fin f ! i)) (map Fin m ! i)) (Fin s)))
      (Fin acc) xs = Fin (foldl (\<lambda>a i. a + c ! i * f ! i * m ! i / s) acc xs)"
  using assms by (induction xs arbitrary: acc) simp_all

lemma factorF_finite:
  assumes "lapLevels - 2 \<le> length c" "lapLevels - 2 \<le> length f" "lapLevels - 2 \<le> length m" "s \<noteq> 0"
  shows "factorF (map Fin c) (map Fin f) (map Fin m) (Fin s) =
    Fin (clamp_factor (foldl (\<lambda>a i. a + c ! i * f ! i * m ! i / s) 0 [0..<lapLevels - 2]))"
  unfolding factorF_def using assms
  by (subst foldl_fadd_Fin) (auto simp: clampF_Fin)

lemma tan_le_twice:
  assumes "0 \<le> x" "x \<le> pi / 3"
  shows "tan x \<le> 2 * x"
proof -
  have "cos (pi / 3) \<le> cos x"
    using assms by (intro cos_monotone_0_pi_le) simp_all
  then have c: "1 / 2 \<le> cos x"
    by (simp add: cos_60)
  have s: "sin x \<le> x"
    using assms(1) by (rule sin_x_le_x)
  have "sin x / cos x \<le> x / cos x"
    using s c by (intro divide_right_mono) simp_all
  also have "\<dots> \<le> x / (1 / 2)"
    using c assms(1) by (intro divide_left_mono) simp_all
  finally show ?thesis
    by (simp add: tan_def)
qed

lemma odp_small:
  "odp (NewPerceptual g l 0.0001 c nc) \<le> 0.0002"
proof -
  let ?x = "0.0001 * 0.5 * pi / 180 :: real"
  have "tan ?x \<le> 2 * ?x"
    by (rule tan_le_twice) simp_all
  then have "2 * tan ?x * 180 / pi \<le> 2 * (2 * ?x) * 180 / pi"
    by (intro divide_right_mono mult_right_mono mult_left_mono) simp_all
  also have "\<dots> = 0.0002"
    by simp
  finally show ?thesis
    by (simp add: NewPerceptual_def Let_def)
qed

lemma odp_pos:
  assumes "0 < f" "f < 180"
  shows "0 < odp (NewPerceptual g l f c nc)"
proof -
  have "0 < f * 0.5 * pi / 180"
    using assms by simp
  moreover have "f * 0.5 * pi / 180 < pi / 2"
    using assms by simp
  ultimately have "0 < tan (f * 0.5 * pi / 180)"
    by (rule tan_gt_zero)
  then show ?thesis
    by (simp add: NewPerceptual_def Let_def)
qed

lemma freqF_NaN:
  assumes "0 < o_d_p" "o_d_p \<le> 0.0002"
  shows "freqF (cpdF 2 (Fin o_d_p)) ! 0 = NaN"
proof -
  have "5000 * o_d_p \<le> 1"
    using assms(2) by simp
  then have "5000 \<le> 1 / o_d_p"
    using assms(1) by (simp add: pos_le_divide_eq)
  then have c: "2500 \<le> 0.5 * real_of_int 2 / o_d_p"
    by simp
  have n: "csfF (Fin (0.5 * real_of_int 2 / o_d_p)) (Fin 100) = NaN"
    by (rule csfF_NaN_large [OF _ c]) simp
  have "cpdF 2 (Fin o_d_p) ! 0 = Fin (0.5 * real_of_int 2 / o_d_p)"
    using assms(1) by (intro cpdF_first) simp
  then show ?thesis
    by (simp only: freqF_first n fdiv_NaN)
qed

lemma fpow_NaN: "y \<noteq> 0 \<Longrightarrow> fpow NaN y = NaN"
  by (simp add: fpow_def)

lemma vmask_baseF_NaN: "vmask_baseF NaN = NaN"
  by (simp add: vmask_baseF_def)

lemma vmaskF_NaN: "vmaskF NaN = NaN"
  by (simp add: vmaskF_def vmask_baseF_NaN fpow_NaN)

lemma factorF_NaN_mask:
  assumes "masks ! 0 = NaN"
  shows "factorF contrast freq masks contrastSum = NaN"
proof -
  have "[0..<lapLevels - 2] = 0 # [1..<lapLevels - 2]"
    by (simp add: lapLevels_def upt_conv_Cons)
  then show ?thesis
    by (simp add: factorF_def assms foldl_fadd_NaN clampF_NaN)
qed

lemma factor_ofF_NaN_freq:
  "freq ! 0 = NaN \<Longrightarrow> factor_ofF cpd freq adapt contrast = NaN"
  by (simp add: factor_ofF_def Let_def factorF_NaN)

lemma factor_ofF_NaN_csf:
  assumes "csfF (cpd ! 0) adapt = NaN"
  shows "factor_ofF cpd freq adapt contrast = NaN"
proof -
  have "map (\<lambda>i. vmaskF (fmul (contrast ! i) (csfF (cpd ! i) adapt))) [0..<lapLevels - 2] ! 0 = NaN"
    by (simp add: lapLevels_def assms vmaskF_NaN)
  then show ?thesis
    unfolding factor_ofF_def Let_def by (rule factorF_NaN_mask)
qed

lemma odp_default: "odp NewDefaultPerceptual \<le> 90"
proof -
  let ?x = "45 * 0.5 * pi / 180 :: real"
  have "tan ?x \<le> 2 * ?x"
    by (rule tan_le_twice) simp_all
  then have "2 * tan ?x * 180 / pi \<le> 2 * (2 * ?x) * 180 / pi"
    by (intro divide_right_mono mult_right_mono mult_left_mono) simp_all
  also have "\<dots> = 90"
    by simp
  finally show ?thesis
    by (simp add: NewDefaultPerceptual_def NewPerceptual_def Let_def)
qed

lemma cpd_tiny_fov:
  "\<exists>c0. cpdF 2 (Fin (odp (NewPerceptual g l 0.0001 c nc))) ! 0 = Fin c0 \<and> 2500 \<le> c0"
proof -
  let ?o = "odp (NewPerceptual g l 0.0001 c nc)"
  have pos: "0 < ?o"
    by (rule odp_pos) simp_all
  have "5000 * ?o \<le> 1"
    using odp_small [of g l c nc] by simp
  then have "5000 \<le> 1 / ?o"
    using pos by (simp add: pos_le_divide_eq)
  then have "2500 \<le> 0.5 * real_of_int 2 / ?o"
    by simp
  moreover have "cpdF 2 (Fin ?o) ! 0 = Fin (0.5 * real_of_int 2 / ?o)"
    using pos by (intro cpdF_first) simp
  ultimately show ?thesis by blast
qed

lemma cpd_default_wide:
  "\<exists>c0. cpdF 50000 (Fin (odp NewDefaultPerceptual)) ! 0 = Fin c0 \<and> 250 \<le> c0"
proof -
  let ?o = "odp NewDefaultPerceptual"
  have pos: "0 < ?o"
    unfolding NewDefaultPerceptual_def by (rule odp_pos) simp_all
  have "250 * ?o \<le> 25000"
    using odp_default by simp
  then have "250 \<le> 25000 / ?o"
    using pos by (simp add: pos_le_divide_eq)
  then have "250 \<le> 0.5 * real_of_int 50000 / ?o"
    by simp
  moreover have "cpdF 50000 (Fin ?o) ! 0 = Fin (0.5 * real_of_int 50000 / ?o)"
    using pos by (intro cpdF_first) simp
  ultimately show ?thesis by blast
qed


text \<open>
  Claim C5. The claim puts the elevation factor in the closed interval from 1 to 10
  whatever the contrasts. The clamp is two comparisons, both false for NaN, and a NaN
  factor is reachable. In \<^verbatim>\<open>csf\<close> the exponent \<^verbatim>\<open>b*cpd\<close> grows with the cycles per degree,
  and from about 745 on \<^verbatim>\<open>math.Exp(-b*cpd)\<close> underflows to 0 while \<^verbatim>\<open>math.Exp(b*cpd)\<close>
  overflows to \<open>+Inf\<close>: their product is NaN. For a field of view of 0.0001 degrees and
  images two pixels wide the first frequency weight is NaN, and so is the factor of
  every pixel, whatever its adaptation luminance and contrasts. For the default
  configuration and images 50000 pixels wide the first mask of a pixel whose adaptation
  luminance is the floor \<open>1e-5\<close> is NaN, and so is its factor, whatever its contrasts.
  On finite values the factor is the clamped real sum (lemma \<open>factorF_finite\<close>), and
  the clamp misses NaN alone (lemma \<open>clampF_within\<close>).
\<close>

theorem factor_not_clamped:
  "factor_ofF (cpdF 2 (Fin (odp (NewPerceptual g l 0.0001 c nc))))
      (freqF (cpdF 2 (Fin (odp (NewPerceptual g l 0.0001 c nc))))) adapt contrast = NaN
   \<and> \<not> inside 1 10
        (factor_ofF (cpdF 2 (Fin (odp (NewPerceptual g l 0.0001 c nc))))
           (freqF (cpdF 2 (Fin (odp (NewPerceptual g l 0.0001 c nc))))) adapt contrast)
   \<and> factor_ofF (cpdF 50000 (Fin (odp NewDefaultPerceptual)))
        (freqF (cpdF 50000 (Fin (odp NewDefaultPerceptual)))) (Fin 0.00001) contrast' = NaN
   \<and> \<not> inside 1 10
        (factor_ofF (cpdF 50000 (Fin (odp NewDefaultPerceptual)))
           (freqF (cpdF 50000 (Fin (odp NewDefaultPerceptual)))) (Fin 0.00001) contrast')"
proof -
  have "0 < odp (NewPerceptual g l 0.0001 c nc)"
    by (rule odp_pos) simp_all
  then have "freqF (cpdF 2 (Fin (odp (NewPerceptual g l 0.0001 c nc)))) ! 0 = NaN"
    using odp_small by (rule freqF_NaN)
  then have a: "factor_ofF (cpdF 2 (Fin (odp (NewPerceptual g l 0.0001 c nc))))
      (freqF (cpdF 2 (Fin (odp (NewPerceptual g l 0.0001 c nc))))) adapt contrast = NaN"
    by (rule factor_ofF_NaN_freq)
  obtain c0 where c0: "cpdF 50000 (Fin (odp NewDefaultPerceptual)) ! 0 = Fin c0" "250 \<le> c0"
    using cpd_default_wide by blast
  have "csfF (cpdF 50000 (Fin (odp NewDefaultPerceptual)) ! 0) (Fin 0.00001) = NaN"
    unfolding c0(1) using c0(2) by (rule csfF_NaN_dark)
  then have b: "factor_ofF (cpdF 50000 (Fin (odp NewDefaultPerceptual)))
        (freqF (cpdF 50000 (Fin (odp NewDefaultPerceptual)))) (Fin 0.00001) contrast' = NaN"
    by (rule factor_ofF_NaN_csf)
  show ?thesis
    unfolding a b by simp
qed

text \<open>
  Claim C9. The claim has every power base of \<^verbatim>\<open>vmask\<close> non-negative on its reachable
  inputs. The argument of \<^verbatim>\<open>vmask\<close> is \<^verbatim>\<open>contrast[i] * csf(cpd[i], adapt)\<close>, and the
  value of \<^verbatim>\<open>csf\<close> is NaN once \<^verbatim>\<open>math.Exp\<close> has underflowed in one of its factors and
  overflowed in the other. For a field of view of 0.0001 degrees and images two pixels
  wide that is so at every adaptation luminance above 0, and for the default
  configuration and images 50000 pixels wide at the floor \<open>1e-5\<close> of the adaptation
  luminance: the base \<^verbatim>\<open>392.498*c\<close> of the first power of \<^verbatim>\<open>vmask\<close> is then NaN, whatever
  the contrast, and NaN is not non-negative. On exponents \<^verbatim>\<open>math.Exp\<close> takes without
  overflow the value of \<^verbatim>\<open>csf\<close> is the real one (lemma \<open>csfF_finite\<close>).
\<close>

theorem vmask_base_NaN:
  assumes "0 < a"
  shows "vmask_baseF (fmul contrast
            (csfF (cpdF 2 (Fin (odp (NewPerceptual g l 0.0001 c nc))) ! 0) (Fin a))) = NaN
    \<and> \<not> non_negative (vmask_baseF (fmul contrast
            (csfF (cpdF 2 (Fin (odp (NewPerceptual g l 0.0001 c nc))) ! 0) (Fin a))))
    \<and> vmask_baseF (fmul contrast'
            (csfF (cpdF 50000 (Fin (odp NewDefaultPerceptual)) ! 0) (Fin 0.00001))) = NaN
    \<and> \<not> non_negative (vmask_baseF (fmul contrast'
            (csfF (cpdF 50000 (Fin (odp NewDefaultPerceptual)) ! 0) (Fin 0.00001))))"
proof -
  obtain c0 where c0: "cpdF 2 (Fin (odp (NewPerceptual g l 0.0001 c nc))) ! 0 = Fin c0" "2500 \<le> c0"
    using cpd_tiny_fov by blast
  have a: "csfF (cpdF 2 (Fin (odp (NewPerceptual g l 0.0001 c nc))) ! 0) (Fin a) = NaN"
    unfolding c0(1) using assms c0(2) by (rule csfF_NaN_large)
  obtain c1 where c1: "cpdF 50000 (Fin (odp NewDefaultPerceptual)) ! 0 = Fin c1" "250 \<le> c1"
    using cpd_default_wide by blast
  have b: "csfF (cpdF 50000 (Fin (odp NewDefaultPerceptual)) ! 0) (Fin 0.00001) = NaN"
    unfolding c1(1) using c1(2) by (rule csfF_NaN_dark)
  show ?thesis
    unfolding a b by (simp add: vmask_baseF_NaN)
qed

theorem vmask_base_NaN_witness:
  "0 < (0.00001::real)
   \<and> vmask_baseF (fmul (Fin 0)
        (csfF (cpdF 2 (Fin (odp (NewPerceptual 2.2 100 0.0001 1 False))) ! 0) (Fin 0.00001))) = NaN
   \<and> vmask_baseF (fmul (Fin 0)
        (csfF (cpdF 50000 (Fin (odp NewDefaultPerceptual)) ! 0) (Fin 0.00001))) = NaN"
  using vmask_base_NaN [of "0.00001" "Fin 0" "2.2" 100 1 False "Fin 0"] by simp

end
